theory Spec2Isabelle
  imports Complex_Main "HOL-Library.AList" "HOL-Library.Log_Nat"
begin

section \<open>The funding transaction fetcher\<close>

text \<open>
  A shallow embedding of \<^verbatim>\<open>backend/src/tasks/lightning/sync-tasks/funding-tx-fetcher.ts\<close>,
  the class \<^verbatim>\<open>FundingTxFetcher\<close>: the methods \<^verbatim>\<open>$fetchChannelOpenTx\<close>,
  \<^verbatim>\<open>$fetchChannelsFundingTxs\<close>, \<^verbatim>\<open>$monitorLightningWallet\<close> and
  \<^verbatim>\<open>getWalletMempoolStatus\<close>. (\<^verbatim>\<open>$init\<close>, which reads the snapshot file, is not
  modelled; \<open>initial_state\<close> is the object before it.)

  Conventions of the embedding.
  \<^item> The fields of the class are the first five fields of the record \<open>state\<close>. What the
    methods do to the outside world is kept in three more fields: the list of
    \<^verbatim>\<open>writeFile\<close> calls issued on the cache file, the list of calls made on
    \<^verbatim>\<open>bitcoinClient\<close>, and the number of times the clock has been read.
  \<^item> The collaborators (\<^verbatim>\<open>bitcoinClient\<close>, \<^verbatim>\<open>Common.channelIntegerIdToShortId\<close>,
    \<^verbatim>\<open>config.LIGHTNING.LOGGER_UPDATE_INTERVAL\<close>, the system clock) are not part of
    the file. They are the fields of the record \<open>env\<close>, and every theorem holds for
    every \<open>env\<close>. A collaborator call either returns (\<open>Inr\<close>) or throws (\<open>Inl\<close>),
    and its answer depends on its arguments only; what it returns has the fields the
    code reads. The clock is a sequence of readings in milliseconds, as
    \<^verbatim>\<open>new Date().getTime()\<close> gives them: integers.
  \<^item> The two timers of a batch and the seconds elapsed are doubles, as in the source: a
    finite double is the rational number it denotes, and the quotient and the
    difference of lines 84 to 105 are rounded to the nearest double.
  \<^item> An \<^verbatim>\<open>async\<close> method is a function from the state to an outcome
    (\<open>Returned\<close> or \<open>Thrown\<close>) and the state it leaves behind. The methods are run one
    at a time: interleaving at \<^verbatim>\<open>await\<close> points is outside the embedding.
  \<^item> \<^verbatim>\<open>logger\<close> calls have no effect on the state and are left out, with the
    counter \<^verbatim>\<open>channelProcessed\<close> that only they read; the clock reads of the
    progress log are kept.
  \<^item> JavaScript numbers that carry amounts have the type variable \<open>'n\<close>; the only
    operations used on them are \<open>0\<close> and \<open>+\<close>, so \<open>'n\<close> may be read as the doubles
    of the source. \<open>None\<close> at type \<open>'n option\<close> is \<^verbatim>\<open>undefined\<close> on input and
    \<^verbatim>\<open>NaN\<close> as the result of an addition.
  \<^item> The keys of the two caches are the keys the code stores; names that every
    object inherits (such as \<^verbatim>\<open>constructor\<close>) are not keys of the model.
\<close>

subsection \<open>Values exchanged with the Bitcoin backend\<close>

datatype error = BackendError | TypeError

datatype 'a outcome = Returned 'a | Thrown error

text \<open>A block as \<^verbatim>\<open>getBlock(hash, 1)\<close> returns it: the fields the code reads.\<close>

record block =
  height :: nat
  time :: int
  tx :: "string list"

record script_pub_key =
  addresses :: "string list option"

text \<open>An output of a decoded transaction; \<open>out_value\<close> is the field \<^verbatim>\<open>value\<close>.\<close>

record 'n tx_out =
  out_value :: "'n option"
  scriptPubKey :: "script_pub_key option"

record 'n decoded_tx =
  vout :: "'n tx_out list option"

text \<open>An entry of \<^verbatim>\<open>getRawMempool(true)\<close>: the two fields the code copies.\<close>

record 'n mempool_details =
  entry_fee :: "'n option"
  entry_vsize :: "nat option"

type_synonym raw_tx = string

type_synonym address_txs = "string list"

subsection \<open>The state of the fetcher\<close>

text \<open>
  The object literal stored in \<^verbatim>\<open>fundingTxCache\<close> at lines 160 to 164; \<open>tx_value\<close> is
  its field \<^verbatim>\<open>value\<close>.
\<close>

record 'n funding_tx =
  timestamp :: int
  txid :: "string option"
  tx_value :: 'n

text \<open>
  \<^verbatim>\<open>fundingTxCache\<close> holds funding records and, under the wallet address, the result of
  \<^verbatim>\<open>getAddressTxs\<close> (line 71). Both are objects, hence truthy at line 128.
\<close>

datatype 'n cache_value = FundingTx "'n funding_tx" | AddressTxs address_txs

record 'n wallet_tx =
  wallet_txid :: string
  amount :: "'n option"
  fee :: "'n option"
  vsize :: "nat option"

text \<open>The two places that write the cache file: line 108 and line 116.\<close>

datatype flush_kind = CheckpointFlush | FinalFlush

datatype rpc_call =
    GetBlockHash "int option"
  | GetBlock string
  | GetRawTransaction "string option" bool
  | DecodeRawTransaction raw_tx
  | GetAddressTxs string
  | GetRawMempool bool

text \<open>
  \<^verbatim>\<open>blocksCache\<close> is an object whose keys are the decimal strings of block heights
  (line 142 stores under \<^verbatim>\<open>block.height\<close>, a number). It is an association list
  keyed by the height itself; a string reads such a key through \<open>canonical_nat\<close>
  below. \<^verbatim>\<open>fundingTxCache\<close> is a map from the key strings.
\<close>

record 'n state =
  running :: bool
  blocksCache :: "(nat \<times> block) list"
  channelNewlyProcessed :: nat
  fundingTxCache :: "string \<rightharpoonup> 'n cache_value"
  walletMempoolTxs :: "'n wallet_tx list"
  disk_writes :: "(flush_kind \<times> (string \<rightharpoonup> 'n cache_value)) list"
  rpc_calls :: "rpc_call list"
  ticks :: nat

record 'n env =
  channelIntegerIdToShortId :: "string \<Rightarrow> error + string"
  getBlockHash :: "int option \<Rightarrow> error + string"
  getBlock :: "string \<Rightarrow> error + block"
  getRawTransaction :: "string option \<Rightarrow> bool \<Rightarrow> error + raw_tx"
  decodeRawTransaction :: "raw_tx \<Rightarrow> error + 'n decoded_tx option"
  getAddressTxs :: "string \<Rightarrow> error + address_txs"
  getRawMempool :: "bool \<Rightarrow> error + (string \<times> 'n mempool_details) list"
  clock :: "nat \<Rightarrow> int"
  LOGGER_UPDATE_INTERVAL :: int

definition BLOCKS_CACHE_MAX_SIZE :: nat where
  "BLOCKS_CACHE_MAX_SIZE = 100"

definition MY_LIGHTNING_WALLET_ADDRESS :: string where
  "MY_LIGHTNING_WALLET_ADDRESS = ''bc1qpqlsehzrjmxhutxmlwt6tdjkwafvcgugpv5375''"

text \<open>The field initialisers of the class, lines 17 to 21, in a world where nothing has happened.\<close>

definition initial_state :: "'n state" where
  "initial_state =
     \<lparr>running = False, blocksCache = [], channelNewlyProcessed = 0,
      fundingTxCache = Map.empty, walletMempoolTxs = [],
      disk_writes = [], rpc_calls = [], ticks = 0\<rparr>"

subsection \<open>Strings, as JavaScript reads them\<close>

text \<open>\<^verbatim>\<open>s.split('x')\<close>: the pieces between the occurrences of \<^verbatim>\<open>x\<close>, at least one piece.\<close>

fun split_x :: "string \<Rightarrow> string list" where
  "split_x [] = [[]]"
| "split_x (c # cs) =
     (if c = CHR ''x'' then [] # split_x cs
      else (let ps = split_x cs in (c # hd ps) # tl ps))"

definition is_digit :: "char \<Rightarrow> bool" where
  "is_digit c = (c \<in> set ''0123456789'')"

definition digit_val :: "char \<Rightarrow> nat" where
  "digit_val c = of_char c - 48"

definition digits_val :: "string \<Rightarrow> nat" where
  "digits_val ds = foldl (\<lambda>a c. 10 * a + digit_val c) 0 ds"

text \<open>
  The number whose decimal string (JavaScript's \<^verbatim>\<open>String(n)\<close>) is \<open>s\<close>, if there is
  one: digits only, no leading zero. These are the strings that name an array index
  and that hit a key of \<^verbatim>\<open>blocksCache\<close>.
\<close>

definition canonical_nat :: "string \<Rightarrow> nat option" where
  "canonical_nat s =
     (if s \<noteq> [] \<and> list_all is_digit s \<and> (hd s \<noteq> CHR ''0'' \<or> length s = 1)
      then Some (digits_val s) else None)"

definition is_space :: "char \<Rightarrow> bool" where
  "is_space c = (c \<in> set [CHR '' '', CHR 0x09, CHR 0x0A, CHR 0x0B, CHR 0x0C, CHR 0x0D])"

text \<open>
  \<^verbatim>\<open>parseInt(s, 10)\<close>: leading white space and one sign are skipped, the longest run
  of digits is read, anything after it is ignored; \<open>None\<close> is \<^verbatim>\<open>NaN\<close>. The argument
  \<open>None\<close> is \<^verbatim>\<open>undefined\<close>, which \<^verbatim>\<open>parseInt\<close> reads as the string
  \<^verbatim>\<open>"undefined"\<close>. Strings are lists of 8-bit characters, so the white space is
  the white space of ASCII; the number read is exact, where JavaScript rounds a number
  beyond \<open>2\<^sup>5\<^sup>3\<close> to a double, and \<^verbatim>\<open>-0\<close> is \<open>0\<close>.
\<close>

definition parseInt :: "string option \<Rightarrow> int option" where
  "parseInt so =
     (case so of
        None \<Rightarrow> None
      | Some s \<Rightarrow>
          (let s1 = dropWhile is_space s;
               neg = (s1 \<noteq> [] \<and> hd s1 = CHR ''-'');
               s2 = (if s1 \<noteq> [] \<and> (hd s1 = CHR ''-'' \<or> hd s1 = CHR ''+'') then tl s1 else s1);
               ds = takeWhile is_digit s2
           in if ds = [] then None
              else Some (if neg then - int (digits_val ds) else int (digits_val ds))))"

text \<open>
  \<^verbatim>\<open>xs[key]\<close> for an array \<open>xs\<close> and a key that is a string or \<^verbatim>\<open>undefined\<close>:
  the element when the key is the decimal string of an index in range, and
  \<^verbatim>\<open>undefined\<close> otherwise. (Keys that name a property of every array, such as
  \<^verbatim>\<open>length\<close>, are not modelled: the parts of a short channel id are digit strings.)
\<close>

definition js_index :: "'a list \<Rightarrow> string option \<Rightarrow> 'a option" where
  "js_index xs key =
     (case key of
        None \<Rightarrow> None
      | Some k \<Rightarrow>
          (case canonical_nat k of
             None \<Rightarrow> None
           | Some i \<Rightarrow> if i < length xs then Some (xs ! i) else None))"

definition nth_opt :: "'a list \<Rightarrow> nat \<Rightarrow> 'a option" where
  "nth_opt xs i = (if i < length xs then Some (xs ! i) else None)"

subsection \<open>Doubles\<close>

text \<open>
  The finite doubles, as the rational numbers they denote. For \<open>x > 0\<close>,
  \<open>floor_log2 x\<close> is the integer \<open>e\<close> with \<open>2\<^sup>e \<le> x < 2\<^sup>e\<^sup>+\<^sup>1\<close> (\<open>bitlen a\<close> is the number of
  binary digits of \<open>a\<close>). \<open>round_double x\<close> is the double nearest to \<open>x\<close>: the multiple
  of \<open>2\<^sup>e\<^sup>-\<^sup>5\<^sup>2\<close> nearest to \<open>x\<close>, the one with the even multiplier when two are equally
  near. This is the rounding of IEEE 754 for a significand of 53 bits; the range of the
  exponent is not modelled (the quotients and differences of clock readings are far
  inside it).
\<close>

type_synonym number = rat

definition floor_log2 :: "rat \<Rightarrow> int" where
  "floor_log2 x =
     (let (a, b) = quotient_of x; k = bitlen a - bitlen b
      in if 2 powi k \<le> x then k else k - 1)"

definition round_half_even :: "rat \<Rightarrow> int" where
  "round_half_even q =
     (let f = \<lfloor>q\<rfloor>; r = q - of_int f
      in if r < 1 / 2 then f
         else if 1 / 2 < r then f + 1
         else if even f then f else f + 1)"

definition round_double :: "rat \<Rightarrow> number" where
  "round_double x =
     (if x = 0 then 0
      else (let u = 2 powi (floor_log2 \<bar>x\<bar> - 52)
            in of_int (round_half_even (x / u)) * u))"

text \<open>
  \<^verbatim>\<open>Math.round(x)\<close>: the integer nearest to \<open>x\<close>, the greater one when two are equally
  near.
\<close>

definition Math_round :: "number \<Rightarrow> int" where
  "Math_round x = \<lfloor>x + 1 / 2\<rfloor>"

text \<open>
  \<^verbatim>\<open>t / 1000\<close> for a clock reading \<open>t\<close>. (A reading is an integer of at most
  \<open>8.64 \<times> 10\<^sup>1\<^sup>5\<close> in absolute value, which is a double.)
\<close>

definition seconds :: "int \<Rightarrow> number" where
  "seconds t = round_double (of_int t / 1000)"

subsection \<open>Calls on the collaborators\<close>

text \<open>
  A call on \<^verbatim>\<open>bitcoinClient\<close> gives the answer of the collaborator and records the
  call. The second argument of \<^verbatim>\<open>getRawTransaction\<close> is \<open>True\<close> where the source
  passes \<^verbatim>\<open>true\<close> (line 49) and \<open>False\<close> where it passes none (line 152); the
  constant second argument of \<^verbatim>\<open>getBlock\<close> is left out.
\<close>

definition rpc_getBlockHash :: "'n env \<Rightarrow> int option \<Rightarrow> 'n state \<Rightarrow> (error + string) \<times> 'n state" where
  "rpc_getBlockHash env h s =
     (getBlockHash env h, s\<lparr>rpc_calls := rpc_calls s @ [GetBlockHash h]\<rparr>)"

definition rpc_getBlock :: "'n env \<Rightarrow> string \<Rightarrow> 'n state \<Rightarrow> (error + block) \<times> 'n state" where
  "rpc_getBlock env hash s =
     (getBlock env hash, s\<lparr>rpc_calls := rpc_calls s @ [GetBlock hash]\<rparr>)"

definition rpc_getRawTransaction ::
  "'n env \<Rightarrow> string option \<Rightarrow> bool \<Rightarrow> 'n state \<Rightarrow> (error + raw_tx) \<times> 'n state" where
  "rpc_getRawTransaction env t verbose s =
     (getRawTransaction env t verbose, s\<lparr>rpc_calls := rpc_calls s @ [GetRawTransaction t verbose]\<rparr>)"

definition rpc_decodeRawTransaction ::
  "'n env \<Rightarrow> raw_tx \<Rightarrow> 'n state \<Rightarrow> (error + 'n decoded_tx option) \<times> 'n state" where
  "rpc_decodeRawTransaction env raw s =
     (decodeRawTransaction env raw, s\<lparr>rpc_calls := rpc_calls s @ [DecodeRawTransaction raw]\<rparr>)"

definition rpc_getAddressTxs :: "'n env \<Rightarrow> string \<Rightarrow> 'n state \<Rightarrow> (error + address_txs) \<times> 'n state" where
  "rpc_getAddressTxs env a s =
     (getAddressTxs env a, s\<lparr>rpc_calls := rpc_calls s @ [GetAddressTxs a]\<rparr>)"

definition rpc_getRawMempool ::
  "'n env \<Rightarrow> bool \<Rightarrow> 'n state \<Rightarrow> (error + (string \<times> 'n mempool_details) list) \<times> 'n state" where
  "rpc_getRawMempool env verbose s =
     (getRawMempool env verbose, s\<lparr>rpc_calls := rpc_calls s @ [GetRawMempool verbose]\<rparr>)"

text \<open>\<^verbatim>\<open>new Date().getTime()\<close>, in milliseconds: the next reading of the clock.\<close>

definition now :: "'n env \<Rightarrow> 'n state \<Rightarrow> int \<times> 'n state" where
  "now env s = (clock env (ticks s), s\<lparr>ticks := Suc (ticks s)\<rparr>)"

text \<open>
  \<^verbatim>\<open>fsPromises.writeFile(CACHE_FILE_NAME, JSON.stringify(this.fundingTxCache))\<close>: the
  cache is serialised at once and the write is not awaited.
\<close>

definition flush :: "flush_kind \<Rightarrow> 'n state \<Rightarrow> 'n state" where
  "flush kind s = s\<lparr>disk_writes := disk_writes s @ [(kind, fundingTxCache s)]\<rparr>"

subsection \<open>The block cache (lines 137 to 149)\<close>

text \<open>
  \<^verbatim>\<open>this.blocksCache[blockHeight]\<close> for a string: found when the string is the
  decimal string of a height in the cache.
\<close>

definition blocksCache_get :: "(nat \<times> block) list \<Rightarrow> string \<Rightarrow> block option" where
  "blocksCache_get c blockHeight =
     (case canonical_nat blockHeight of None \<Rightarrow> None | Some h \<Rightarrow> map_of c h)"

text \<open>Lines 137 to 141: the block from the cache, or from the backend.\<close>

definition resolve_block :: "'n env \<Rightarrow> string \<Rightarrow> 'n state \<Rightarrow> block outcome \<times> 'n state" where
  "resolve_block env blockHeight s =
     (case blocksCache_get (blocksCache s) blockHeight of
        Some block \<Rightarrow> (Returned block, s)
      | None \<Rightarrow>
          (case rpc_getBlockHash env (parseInt (Some blockHeight)) s of
             (Inl e, s1) \<Rightarrow> (Thrown e, s1)
           | (Inr blockHash, s1) \<Rightarrow>
               (case rpc_getBlock env blockHash s1 of
                  (Inl e, s2) \<Rightarrow> (Thrown e, s2)
                | (Inr block, s2) \<Rightarrow> (Returned block, s2))))"

text \<open>
  Line 144: the keys, sorted by \<^verbatim>\<open>(a, b) => parseInt(b) - parseInt(a)\<close>, that is by
  descending height with a stable sort, and then reversed.
\<close>

definition blocksCacheHashes :: "(nat \<times> block) list \<Rightarrow> nat list" where
  "blocksCacheHashes c = rev (sort_key (\<lambda>h. - int h) (map fst c))"

text \<open>Lines 145 to 149.\<close>

definition evict :: "(nat \<times> block) list \<Rightarrow> (nat \<times> block) list" where
  "evict c =
     (let hashes = blocksCacheHashes c
      in if length hashes > BLOCKS_CACHE_MAX_SIZE
         then fold AList.delete (take 10 hashes) c
         else c)"

text \<open>Lines 142 to 149: store the block under its own height, then evict.\<close>

definition cache_block :: "block \<Rightarrow> (nat \<times> block) list \<Rightarrow> (nat \<times> block) list" where
  "cache_block b c = evict (AList.update (height b) b c)"

subsection \<open>\<^verbatim>\<open>$fetchChannelOpenTx\<close> (lines 125 to 169)\<close>

text \<open>
  Line 155 for a transaction that is there and has outputs:
  \<^verbatim>\<open>tx.vout.length < parseInt(outputIdx, 10) + 1\<close>; a comparison with \<^verbatim>\<open>NaN\<close> is false.
\<close>

definition too_few_outputs :: "'a list \<Rightarrow> string option \<Rightarrow> bool" where
  "too_few_outputs outs outputIdx =
     (case parseInt outputIdx of
        None \<Rightarrow> False
      | Some n \<Rightarrow> int (length outs) < n + 1)"

text \<open>
  Lines 155 to 168, for the decoded transaction \<open>decoded\<close>. Reading \<^verbatim>\<open>.value\<close> of
  \<^verbatim>\<open>tx.vout[outputIdx]\<close> throws a \<^verbatim>\<open>TypeError\<close> when that output is \<^verbatim>\<open>undefined\<close>.
\<close>

definition store_funding_tx ::
  "string \<Rightarrow> block \<Rightarrow> string option \<Rightarrow> string option \<Rightarrow> 'n decoded_tx option \<Rightarrow> 'n state
     \<Rightarrow> 'n cache_value option outcome \<times> 'n state" where
  "store_funding_tx channelId b t outputIdx decoded s =
     (case decoded of
        None \<Rightarrow> (Returned None, s)
      | Some d \<Rightarrow>
          (case vout d of
             None \<Rightarrow> (Returned None, s)
           | Some outs \<Rightarrow>
               if too_few_outputs outs outputIdx then (Returned None, s)
               else
                 (case js_index outs outputIdx of
                    None \<Rightarrow> (Thrown TypeError, s)
                  | Some out \<Rightarrow>
                      (case out_value out of
                         None \<Rightarrow> (Returned None, s)
                       | Some v \<Rightarrow>
                           (let r = FundingTx \<lparr>timestamp = time b, txid = t, tx_value = v\<rparr>;
                                s1 = s\<lparr>fundingTxCache := (fundingTxCache s)(channelId \<mapsto> r)\<rparr>;
                                s2 = s1\<lparr>channelNewlyProcessed := channelNewlyProcessed s1 + 1\<rparr>
                            in (Returned (fundingTxCache s2 channelId), s2))))))"

definition fetchChannelOpenTx ::
  "'n env \<Rightarrow> string \<Rightarrow> 'n state \<Rightarrow> 'n cache_value option outcome \<times> 'n state" where
  "fetchChannelOpenTx env channelId0 s =
     (case channelIntegerIdToShortId env channelId0 of
        Inl e \<Rightarrow> (Thrown e, s)
      | Inr channelId \<Rightarrow>
          (case fundingTxCache s channelId of
             Some r \<Rightarrow> (Returned (Some r), s)
           | None \<Rightarrow>
               (let parts = split_x channelId;
                    blockHeight = hd parts;
                    txIdx = nth_opt parts 1;
                    outputIdx = nth_opt parts 2
                in case resolve_block env blockHeight s of
                     (Thrown e, s1) \<Rightarrow> (Thrown e, s1)
                   | (Returned b, s1) \<Rightarrow>
                       (let s2 = s1\<lparr>blocksCache := cache_block b (blocksCache s1)\<rparr>;
                            t = js_index (tx b) txIdx
                        in case rpc_getRawTransaction env t False s2 of
                             (Inl e, s3) \<Rightarrow> (Thrown e, s3)
                           | (Inr rawTx, s3) \<Rightarrow>
                               (case rpc_decodeRawTransaction env rawTx s3 of
                                  (Inl e, s4) \<Rightarrow> (Thrown e, s4)
                                | (Inr decoded, s4) \<Rightarrow>
                                    store_funding_tx channelId b t outputIdx decoded s4)))))"

subsection \<open>\<^verbatim>\<open>$monitorLightningWallet\<close> (lines 40 to 76)\<close>

text \<open>
  The test of line 52 and of line 56 on one output, once its \<^verbatim>\<open>scriptPubKey\<close> is
  there: \<^verbatim>\<open>addresses\<close> exists and includes the wallet address.
\<close>

definition includes_me :: "script_pub_key \<Rightarrow> bool" where
  "includes_me spk =
     (case addresses spk of
        None \<Rightarrow> False
      | Some as \<Rightarrow> MY_LIGHTNING_WALLET_ADDRESS \<in> set as)"

text \<open>
  Lines 51 to 53, \<^verbatim>\<open>decoded.vout.some(...)\<close>: the outputs are tested in order up to the
  first that matches; reading \<^verbatim>\<open>addresses\<close> of a missing \<^verbatim>\<open>scriptPubKey\<close> throws.
\<close>

fun sendsToMe :: "'n tx_out list \<Rightarrow> bool outcome" where
  "sendsToMe [] = Returned False"
| "sendsToMe (out # outs) =
     (case scriptPubKey out of
        None \<Rightarrow> Thrown TypeError
      | Some spk \<Rightarrow> if includes_me spk then Returned True else sendsToMe outs)"

text \<open>\<^verbatim>\<open>sum + out.value\<close>: adding \<^verbatim>\<open>undefined\<close>, or adding to \<^verbatim>\<open>NaN\<close>, gives \<^verbatim>\<open>NaN\<close>.\<close>

definition js_add :: "'n::plus option \<Rightarrow> 'n option \<Rightarrow> 'n option" where
  "js_add a b =
     (case a of
        None \<Rightarrow> None
      | Some x \<Rightarrow> (case b of None \<Rightarrow> None | Some y \<Rightarrow> Some (x + y)))"

text \<open>Lines 55 and 56, \<^verbatim>\<open>decoded.vout.reduce(..., 0)\<close>, from the running sum \<open>acc\<close>.\<close>

fun receivedAmount :: "'n::plus option \<Rightarrow> 'n tx_out list \<Rightarrow> 'n option outcome" where
  "receivedAmount acc [] = Returned acc"
| "receivedAmount acc (out # outs) =
     (case scriptPubKey out of
        None \<Rightarrow> Thrown TypeError
      | Some spk \<Rightarrow>
          receivedAmount (if includes_me spk then js_add acc (out_value out) else acc) outs)"

text \<open>
  Lines 49 to 58, the body of the loop for one entry of the mempool: the transaction
  to push on \<^verbatim>\<open>mempoolTxs\<close>, if it sends to the wallet. Reading \<^verbatim>\<open>vout\<close> of a
  missing transaction, or calling \<^verbatim>\<open>some\<close> on a missing \<^verbatim>\<open>vout\<close>, throws.
\<close>

definition scan_entry ::
  "('n::{zero,plus}) env \<Rightarrow> string \<Rightarrow> 'n mempool_details \<Rightarrow> 'n state
     \<Rightarrow> 'n wallet_tx option outcome \<times> 'n state" where
  "scan_entry env t details s =
     (case rpc_getRawTransaction env (Some t) True s of
        (Inl e, s1) \<Rightarrow> (Thrown e, s1)
      | (Inr rawTx, s1) \<Rightarrow>
          (case rpc_decodeRawTransaction env rawTx s1 of
             (Inl e, s2) \<Rightarrow> (Thrown e, s2)
           | (Inr decoded, s2) \<Rightarrow>
               (case decoded of
                  None \<Rightarrow> (Thrown TypeError, s2)
                | Some d \<Rightarrow>
                    (case vout d of
                       None \<Rightarrow> (Thrown TypeError, s2)
                     | Some outs \<Rightarrow>
                         (case sendsToMe outs of
                            Thrown e \<Rightarrow> (Thrown e, s2)
                          | Returned b \<Rightarrow>
                              if b then
                                (case receivedAmount (Some 0) outs of
                                   Thrown e \<Rightarrow> (Thrown e, s2)
                                 | Returned a \<Rightarrow>
                                     (Returned
                                        (Some \<lparr>wallet_txid = t, amount = a,
                                                fee = entry_fee details,
                                                vsize = entry_vsize details\<rparr>), s2))
                              else (Returned None, s2))))))"

text \<open>
  Lines 48 to 59: the loop over the entries of the mempool, \<open>mempoolTxs\<close> being the
  array built so far.
\<close>

fun scanMempool ::
  "('n::{zero,plus}) env \<Rightarrow> (string \<times> 'n mempool_details) list \<Rightarrow> 'n wallet_tx list \<Rightarrow> 'n state
     \<Rightarrow> 'n wallet_tx list outcome \<times> 'n state" where
  "scanMempool env [] mempoolTxs s = (Returned mempoolTxs, s)"
| "scanMempool env ((t, details) # rest) mempoolTxs s =
     (case scan_entry env t details s of
        (Thrown e, s1) \<Rightarrow> (Thrown e, s1)
      | (Returned None, s1) \<Rightarrow> scanMempool env rest mempoolTxs s1
      | (Returned (Some w), s1) \<Rightarrow> scanMempool env rest (mempoolTxs @ [w]) s1)"

text \<open>The body of the \<^verbatim>\<open>try\<close>, lines 42 to 71.\<close>

definition monitor_try :: "('n::{zero,plus}) env \<Rightarrow> 'n state \<Rightarrow> unit outcome \<times> 'n state" where
  "monitor_try env s =
     (case rpc_getAddressTxs env MY_LIGHTNING_WALLET_ADDRESS s of
        (Inl e, s1) \<Rightarrow> (Thrown e, s1)
      | (Inr confirmedTxs, s1) \<Rightarrow>
          (case rpc_getRawMempool env True s1 of
             (Inl e, s2) \<Rightarrow> (Thrown e, s2)
           | (Inr mempoolEntries, s2) \<Rightarrow>
               (case scanMempool env mempoolEntries [] s2 of
                  (Thrown e, s3) \<Rightarrow> (Thrown e, s3)
                | (Returned mempoolTxs, s3) \<Rightarrow>
                    (let s4 = s3\<lparr>walletMempoolTxs := mempoolTxs\<rparr>;
                         s5 = s4\<lparr>fundingTxCache :=
                                   (fundingTxCache s4)
                                     (MY_LIGHTNING_WALLET_ADDRESS \<mapsto> AddressTxs confirmedTxs)\<rparr>
                     in (Returned (), s5)))))"

text \<open>The \<^verbatim>\<open>catch\<close> of line 73 logs and returns: the method never throws.\<close>

definition monitorLightningWallet :: "('n::{zero,plus}) env \<Rightarrow> 'n state \<Rightarrow> 'n state" where
  "monitorLightningWallet env s = snd (monitor_try env s)"

definition getWalletMempoolStatus :: "'n state \<Rightarrow> 'n wallet_tx list" where
  "getWalletMempoolStatus s = walletMempoolTxs s"

subsection \<open>\<^verbatim>\<open>$fetchChannelsFundingTxs\<close> (lines 78 to 123)\<close>

text \<open>
  \<^verbatim>\<open>Math.round((new Date().getTime() / 1000) - timer)\<close> for a clock reading \<open>t\<close> and a
  timer: the reading is divided by 1000, the timer is subtracted, and the difference
  is rounded to an integer.
\<close>

definition elapsedSeconds :: "int \<Rightarrow> number \<Rightarrow> int" where
  "elapsedSeconds t timer = Math_round (round_double (seconds t - timer))"

text \<open>
  Lines 94 to 103: the progress log; its result is the new \<^verbatim>\<open>loggerTimer\<close>. The clock is
  read for the test, and twice more when the log is written (lines 96 and 102).
\<close>

definition progress_log :: "'n env \<Rightarrow> number \<Rightarrow> 'n state \<Rightarrow> number \<times> 'n state" where
  "progress_log env loggerTimer s =
     (let (t1, s1) = now env s
      in if elapsedSeconds t1 loggerTimer > LOGGER_UPDATE_INTERVAL env
         then (let (t2, s2) = now env s1;
                   (t3, s3) = now env s2
               in (seconds t3, s3))
         else (loggerTimer, s1))"

text \<open>Lines 105 to 110: the checkpoint; its result is the new \<^verbatim>\<open>cacheTimer\<close>.\<close>

definition checkpoint :: "'n env \<Rightarrow> number \<Rightarrow> 'n state \<Rightarrow> number \<times> 'n state" where
  "checkpoint env cacheTimer s =
     (let (t1, s1) = now env s
      in if elapsedSeconds t1 cacheTimer > 60
         then (let (t2, s2) = now env (flush CheckpointFlush s1)
               in (seconds t2, s2))
         else (cacheTimer, s1))"

text \<open>Lines 90 to 111: the loop over the channel ids, with the two timers it updates.\<close>

fun fetch_loop ::
  "'n env \<Rightarrow> string list \<Rightarrow> number \<Rightarrow> number \<Rightarrow> 'n state \<Rightarrow> unit outcome \<times> 'n state" where
  "fetch_loop env [] cacheTimer loggerTimer s = (Returned (), s)"
| "fetch_loop env (channelId # rest) cacheTimer loggerTimer s =
     (case fetchChannelOpenTx env channelId s of
        (Thrown e, s1) \<Rightarrow> (Thrown e, s1)
      | (Returned r, s1) \<Rightarrow>
          (let (loggerTimer', s2) = progress_log env loggerTimer s1;
               (cacheTimer', s3) = checkpoint env cacheTimer s2
           in fetch_loop env rest cacheTimer' loggerTimer' s3))"

text \<open>Lines 113 to 117.\<close>

definition final_flush :: "'n state \<Rightarrow> 'n state" where
  "final_flush s = (if channelNewlyProcessed s > 0 then flush FinalFlush s else s)"

definition fetchChannelsFundingTxs ::
  "('n::{zero,plus}) env \<Rightarrow> string list \<Rightarrow> 'n state \<Rightarrow> unit outcome \<times> 'n state" where
  "fetchChannelsFundingTxs env channelIds s =
     (if running s then (Returned (), s)
      else
        (let s1 = s\<lparr>running := True\<rparr>;
             (t1, s2) = now env s1;
             globalTimer = seconds t1;
             (t2, s3) = now env s2;
             cacheTimer = seconds t2;
             (t3, s4) = now env s3;
             loggerTimer = seconds t3;
             s5 = s4\<lparr>channelNewlyProcessed := 0\<rparr>
         in case fetch_loop env channelIds cacheTimer loggerTimer s5 of
              (Thrown e, s6) \<Rightarrow> (Thrown e, s6)
            | (Returned u, s6) \<Rightarrow>
                (let s7 = final_flush s6;
                     s8 = monitorLightningWallet env s7
                 in (Returned (), s8\<lparr>running := False\<rparr>))))"

subsection \<open>Vocabulary of the properties\<close>

text \<open>
  What the properties below speak of, beside the code. A batch is served from the cache
  when every id normalizes to a key of \<^verbatim>\<open>fundingTxCache\<close>.
\<close>

definition all_cached :: "'n env \<Rightarrow> string list \<Rightarrow> 'n state \<Rightarrow> bool" where
  "all_cached env channelIds s =
     list_all (\<lambda>c. case channelIntegerIdToShortId env c of
                      Inl e \<Rightarrow> False
                    | Inr k \<Rightarrow> fundingTxCache s k \<noteq> None) channelIds"

text \<open>The block cache has distinct keys, as an object has, and at most 100 of them.\<close>

definition blocksCache_bounded :: "'n state \<Rightarrow> bool" where
  "blocksCache_bounded s =
     (distinct (map fst (blocksCache s)) \<and> length (blocksCache s) \<le> BLOCKS_CACHE_MAX_SIZE)"

text \<open>
  The wallet snapshot as the specification words it. An output pays the wallet when its
  \<^verbatim>\<open>scriptPubKey\<close> has addresses that include the wallet address; the amount of a
  transaction is the sum of the values of the outputs that pay the wallet, added from 0
  in the order of the outputs; the transaction of a mempool entry is what the backend
  decodes for its id; the snapshot has one record, in order, for every entry whose
  transaction has an output that pays the wallet.
\<close>

definition pays_me :: "'n tx_out \<Rightarrow> bool" where
  "pays_me out = (case scriptPubKey out of None \<Rightarrow> False | Some spk \<Rightarrow> includes_me spk)"

definition matching_sum :: "('n::{zero,plus}) tx_out list \<Rightarrow> 'n option" where
  "matching_sum outs = foldl js_add (Some 0) (map out_value (filter pays_me outs))"

definition decoded_outputs :: "'n env \<Rightarrow> string \<Rightarrow> 'n tx_out list option" where
  "decoded_outputs env t =
     (case getRawTransaction env (Some t) True of
        Inl e \<Rightarrow> None
      | Inr rawTx \<Rightarrow>
          (case decodeRawTransaction env rawTx of
             Inl e \<Rightarrow> None
           | Inr None \<Rightarrow> None
           | Inr (Some d) \<Rightarrow> vout d))"

definition sends_to_wallet :: "'n env \<Rightarrow> string \<Rightarrow> bool" where
  "sends_to_wallet env t =
     (case decoded_outputs env t of None \<Rightarrow> False | Some outs \<Rightarrow> list_ex pays_me outs)"

definition wallet_snapshot ::
  "('n::{zero,plus}) env \<Rightarrow> (string \<times> 'n mempool_details) list \<Rightarrow> 'n wallet_tx list" where
  "wallet_snapshot env entries =
     map (\<lambda>(t, details).
            \<lparr>wallet_txid = t,
             amount = (case decoded_outputs env t of None \<Rightarrow> None | Some outs \<Rightarrow> matching_sum outs),
             fee = entry_fee details, vsize = entry_vsize details\<rparr>)
         (filter (\<lambda>(t, details). sends_to_wallet env t) entries)"

text \<open>
  The checkpoints of a batch, told from what batches leave behind. The batch over the
  first \<open>k\<close> channel ids leaves the state \<open>after_items \<dots> k\<close>; the checkpoint after item \<open>k\<close>
  (counted from 0) has flushed when the batch over \<open>k + 1\<close> ids has issued more
  checkpoint flushes than the batch over \<open>k\<close> ids. The test after item \<open>k\<close> (line 105)
  uses the last reading of the clock made for that item, or the one before it when a
  flush follows (line 109 reads the clock once more). The checkpoint timer is set by
  the second reading of the batch (line 85) and then by the reading that follows each
  flush. Readings are named by their index in the sequence of the clock.
\<close>

definition checkpoint_flushes :: "'n state \<Rightarrow> nat" where
  "checkpoint_flushes s = length (filter (\<lambda>w. fst w = CheckpointFlush) (disk_writes s))"






subsection \<open>Concrete collaborators and states\<close>

text \<open>
  A backend that knows one block, at height 700000, with two transactions; the second
  one decodes to two outputs and the first one does not decode. Its wallet calls fail.
  The clock advances by one millisecond at every reading.
\<close>

definition example_block :: block where
  "example_block = \<lparr>height = 700000, time = 1631000000, tx = [''t0'', ''t1'']\<rparr>"

definition example_tx :: "int decoded_tx" where
  "example_tx =
     \<lparr>vout = Some [\<lparr>out_value = Some 5, scriptPubKey = None\<rparr>,
                   \<lparr>out_value = Some 7, scriptPubKey = None\<rparr>]\<rparr>"

definition example_env :: "int env" where
  "example_env =
     \<lparr>channelIntegerIdToShortId = (\<lambda>i. Inr i),
      getBlockHash = (\<lambda>h. if h = Some 700000 then Inr ''hash700000'' else Inl BackendError),
      getBlock = (\<lambda>h. if h = ''hash700000'' then Inr example_block else Inl BackendError),
      getRawTransaction =
        (\<lambda>t verbose. case t of None \<Rightarrow> Inl BackendError | Some x \<Rightarrow> Inr (''raw-'' @ x)),
      decodeRawTransaction =
        (\<lambda>raw. if raw = ''raw-t1'' then Inr (Some example_tx) else Inr None),
      getAddressTxs = (\<lambda>a. Inl BackendError),
      getRawMempool = (\<lambda>verbose. Inl BackendError),
      clock = (\<lambda>k. int k),
      LOGGER_UPDATE_INTERVAL = 30\<rparr>"

text \<open>The record of channel \<^verbatim>\<open>700000x1x1\<close> on that backend, and a cache that holds it.\<close>

definition example_record :: "int cache_value" where
  "example_record = FundingTx \<lparr>timestamp = 1631000000, txid = Some ''t1'', tx_value = 7\<rparr>"

definition old_record :: "int cache_value" where
  "old_record = FundingTx \<lparr>timestamp = 1631000000, txid = Some ''t0'', tx_value = 3\<rparr>"

definition cached_state :: "int state" where
  "cached_state =
     initial_state\<lparr>fundingTxCache := [''700000x1x1'' \<mapsto> example_record,
                                       ''700000x0x0'' \<mapsto> old_record]\<rparr>"

definition busy_state :: "int state" where
  "busy_state = initial_state\<lparr>running := True\<rparr>"

text \<open>A block cache at its capacity: the heights 1 to 100.\<close>

definition full_state :: "int state" where
  "full_state =
     initial_state\<lparr>blocksCache := map (\<lambda>h. (h, \<lparr>height = h, time = 0, tx = []\<rparr>)) [1..<101]\<rparr>"

text \<open>The same backend with a clock that jumps by 61 seconds after the batch has started.\<close>

definition late_env :: "int env" where
  "late_env = example_env\<lparr>clock := (\<lambda>k. if k < 3 then 0 else 61000)\<rparr>"

text \<open>
  The same backend with a clock on which every item of a batch takes one millisecond
  (the two readings after an item agree), and a progress log once an hour.
\<close>

definition steady_env :: "int env" where
  "steady_env = example_env\<lparr>clock := (\<lambda>k. int ((k - 1) div 2)), LOGGER_UPDATE_INTERVAL := 3600\<rparr>"

text \<open>
  A backend whose mempool has two transactions: the first pays the wallet in its first
  and third output, the second pays somebody else.
\<close>

definition paying_tx :: "int decoded_tx" where
  "paying_tx =
     \<lparr>vout = Some
        [\<lparr>out_value = Some 5,
          scriptPubKey = Some \<lparr>addresses = Some [MY_LIGHTNING_WALLET_ADDRESS]\<rparr>\<rparr>,
         \<lparr>out_value = Some 9,
          scriptPubKey = Some \<lparr>addresses = Some [''bc1qother'']\<rparr>\<rparr>,
         \<lparr>out_value = Some 7,
          scriptPubKey = Some \<lparr>addresses = Some [''bc1qother'', MY_LIGHTNING_WALLET_ADDRESS]\<rparr>\<rparr>]\<rparr>"

definition other_tx :: "int decoded_tx" where
  "other_tx =
     \<lparr>vout = Some [\<lparr>out_value = Some 4, scriptPubKey = Some \<lparr>addresses = None\<rparr>\<rparr>]\<rparr>"

definition wallet_env :: "int env" where
  "wallet_env =
     example_env
       \<lparr>decodeRawTransaction :=
          (\<lambda>raw. if raw = ''raw-m0'' then Inr (Some paying_tx)
                  else if raw = ''raw-m1'' then Inr (Some other_tx) else Inr None),
        getAddressTxs := (\<lambda>a. Inr [''c0'']),
        getRawMempool :=
          (\<lambda>verbose. Inr [(''m0'', \<lparr>entry_fee = Some 2, entry_vsize = Some 141\<rparr>),
                           (''m1'', \<lparr>entry_fee = Some 1, entry_vsize = Some 110\<rparr>)])\<rparr>"

text \<open>A state whose wallet snapshot is left from an earlier refresh.\<close>

definition stale_state :: "int state" where
  "stale_state =
     initial_state
       \<lparr>walletMempoolTxs := [\<lparr>wallet_txid = ''old'', amount = Some 1, fee = None, vsize = None\<rparr>]\<rparr>"

section \<open>Properties\<close>

subsection \<open>Doubles\<close>

lemma floor_log2_bounds:
  assumes "0 < x"
  shows "2 powi floor_log2 x \<le> x \<and> x < 2 powi (floor_log2 x + 1)"
proof -
  obtain a b where q: "quotient_of x = (a, b)" by (cases "quotient_of x")
  have b: "0 < b" using quotient_of_denom_pos[OF q] .
  have x: "x = of_int a / of_int b" using quotient_of_div[OF q] .
  have a: "0 < a" using assms b x by (simp add: zero_less_divide_iff)
  let ?la = "bitlen a" and ?lb = "bitlen b"
  have la1: "1 \<le> ?la" using a bitlen_eq_zero_iff[of a] bitlen_nonneg[of a] by linarith
  have lb1: "1 \<le> ?lb" using b bitlen_eq_zero_iff[of b] bitlen_nonneg[of b] by linarith
  have pa: "(2::rat) powi (?la - 1) \<le> of_int a" "of_int a < (2::rat) powi ?la"
  proof -
    from bitlen_bounds[OF a] have "2 ^ nat (?la - 1) \<le> a" "a < 2 ^ nat ?la" by simp_all
    then have "(of_int (2 ^ nat (?la - 1)) :: rat) \<le> of_int a" "(of_int a :: rat) < of_int (2 ^ nat ?la)"
      by (simp_all only: of_int_le_iff of_int_less_iff)
    then show "(2::rat) powi (?la - 1) \<le> of_int a" "of_int a < (2::rat) powi ?la"
      using la1 by (simp_all add: power_int_def)
  qed
  have pb: "(2::rat) powi (?lb - 1) \<le> of_int b" "of_int b < (2::rat) powi ?lb"
  proof -
    from bitlen_bounds[OF b] have "2 ^ nat (?lb - 1) \<le> b" "b < 2 ^ nat ?lb" by simp_all
    then have "(of_int (2 ^ nat (?lb - 1)) :: rat) \<le> of_int b" "(of_int b :: rat) < of_int (2 ^ nat ?lb)"
      by (simp_all only: of_int_le_iff of_int_less_iff)
    then show "(2::rat) powi (?lb - 1) \<le> of_int b" "of_int b < (2::rat) powi ?lb"
      using lb1 by (simp_all add: power_int_def)
  qed
  let ?k = "?la - ?lb"
  have bpos: "(0::rat) < of_int b" using b by simp
  have lower: "(2::rat) powi (?k - 1) \<le> x"
  proof -
    have "(2::rat) powi (?k - 1) = 2 powi (?la - 1) / 2 powi ?lb"
      by (simp add: power_int_diff)
    also have "\<dots> \<le> of_int a / 2 powi ?lb"
      using pa(1) by (simp add: divide_right_mono)
    also have "\<dots> \<le> of_int a / of_int b"
      using pb(2) bpos a by (simp add: frac_le)
    finally show ?thesis using x by simp
  qed
  have upper: "x < (2::rat) powi (?k + 1)"
  proof -
    have "(of_int a :: rat) / of_int b < 2 powi ?la / of_int b"
      using pa(2) bpos by (simp add: divide_strict_right_mono)
    also have "\<dots> \<le> 2 powi ?la / 2 powi (?lb - 1)"
      using pb(1) by (simp add: frac_le)
    also have "\<dots> = (2::rat) powi (?k + 1)"
      by (simp add: power_int_diff power_int_add)
    finally show ?thesis using x by simp
  qed
  show ?thesis
  proof (cases "(2::rat) powi ?k \<le> x")
    case True
    then show ?thesis using upper q by (simp add: floor_log2_def)
  next
    case False
    then show ?thesis using lower q by (simp add: floor_log2_def)
  qed
qed

lemma round_half_even_error: "\<bar>of_int (round_half_even q) - q\<bar> \<le> 1 / 2"
proof -
  have "of_int \<lfloor>q\<rfloor> \<le> q" "q < of_int \<lfloor>q\<rfloor> + 1" by linarith+
  then show ?thesis
    by (auto simp: round_half_even_def Let_def)
qed

lemma round_double_error: "\<bar>round_double x - x\<bar> \<le> \<bar>x\<bar> / 2 ^ 53"
proof (cases "x = 0")
  case True
  then show ?thesis by (simp add: round_double_def)
next
  case False
  let ?e = "floor_log2 \<bar>x\<bar>"
  let ?u = "(2::rat) powi (?e - 52)"
  have u: "0 < ?u" by simp
  have ux: "?u * 2 ^ 52 \<le> \<bar>x\<bar>"
  proof -
    have "?u * 2 ^ 52 = 2 powi ?e" by (simp add: power_int_diff)
    then show ?thesis using floor_log2_bounds[of "\<bar>x\<bar>"] False by simp
  qed
  have "round_double x - x = (of_int (round_half_even (x / ?u)) - x / ?u) * ?u"
    using False u by (simp add: round_double_def Let_def field_simps)
  then have "\<bar>round_double x - x\<bar> = \<bar>of_int (round_half_even (x / ?u)) - x / ?u\<bar> * ?u"
    using u by (simp add: abs_mult)
  also have "\<dots> \<le> (1 / 2) * ?u"
    using round_half_even_error[of "x / ?u"] u by (intro mult_right_mono) simp_all
  also have "\<dots> \<le> \<bar>x\<bar> / 2 ^ 53"
    using ux by (simp add: field_simps)
  finally show ?thesis .
qed

lemma seconds_error:
  assumes "\<bar>t\<bar> \<le> 1000000000000000"
  shows "\<bar>seconds t - of_int t / 1000\<bar> \<le> 1 / 8000"
proof -
  have "\<bar>(of_int t :: rat) / 1000\<bar> \<le> 1000000000000" 
  proof -
    have "\<bar>(of_int t :: rat)\<bar> \<le> 1000000000000000"
      using assms by (metis of_int_abs of_int_le_iff of_int_numeral)
    then show ?thesis by simp
  qed
  then have "\<bar>(of_int t :: rat) / 1000\<bar> / 2 ^ 53 \<le> 1 / 8000" by simp
  with round_double_error[of "of_int t / 1000"] show ?thesis
    unfolding seconds_def by linarith
qed

text \<open>
  The seconds elapsed between two readings of the clock, for readings of at most
  \<open>10\<^sup>1\<^sup>5\<close> milliseconds in absolute value: rounding moves the difference by less than
  a millisecond, so only a difference that ends in 500 milliseconds can be rounded
  either way.
\<close>

lemma elapsedSeconds_bounds:
  assumes t: "\<bar>t\<bar> \<le> 1000000000000000" and t0: "\<bar>t0\<bar> \<le> 1000000000000000"
  shows "1000 * N + 501 \<le> t - t0 \<Longrightarrow> N < elapsedSeconds t (seconds t0)"
    and "t - t0 \<le> 1000 * N + 499 \<Longrightarrow> elapsedSeconds t (seconds t0) \<le> N"
proof -
  let ?z = "seconds t - seconds t0"
  let ?d = "(of_int (t - t0) :: rat) / 1000"
  have "?z - ?d = (seconds t - of_int t / 1000) - (seconds t0 - of_int t0 / 1000)"
    by (simp add: diff_divide_distrib)
  then have e: "\<bar>?z - ?d\<bar> \<le> 1 / 4000"
    using seconds_error[OF t] seconds_error[OF t0] by linarith
  have dz: "\<bar>?d\<bar> \<le> 2000000000000"
  proof -
    have "\<bar>t - t0\<bar> \<le> 2000000000000000" using t t0 by linarith
    then have "\<bar>(of_int (t - t0) :: rat)\<bar> \<le> 2000000000000000"
      by (metis of_int_abs of_int_le_iff of_int_numeral)
    then show ?thesis by simp
  qed
  have z: "\<bar>?z\<bar> \<le> 2000000000001" using e dz by linarith
  have "\<bar>?z\<bar> / 2 ^ 53 \<le> 1 / 4000" using z by simp
  with round_double_error[of ?z] have r: "\<bar>round_double ?z - ?z\<bar> \<le> 1 / 4000" by linarith
  have tot: "\<bar>round_double ?z - ?d\<bar> \<le> 1 / 2000" using r e by linarith
  {
    assume "1000 * N + 501 \<le> t - t0"
    then have "(of_int (1000 * N + 501) :: rat) \<le> of_int (t - t0)" by (simp only: of_int_le_iff)
    then have "of_int N + 501 / 1000 \<le> ?d" by simp
    with tot have "of_int N + 1 \<le> round_double ?z + 1 / 2" by linarith
    then have "of_int (N + 1) \<le> round_double ?z + 1 / 2" by simp
    then have "N + 1 \<le> \<lfloor>round_double ?z + 1 / 2\<rfloor>" by (simp only: le_floor_iff)
    then show "N < elapsedSeconds t (seconds t0)"
      by (simp add: elapsedSeconds_def Math_round_def)
  }
  {
    assume "t - t0 \<le> 1000 * N + 499"
    then have "(of_int (t - t0) :: rat) \<le> of_int (1000 * N + 499)" by (simp only: of_int_le_iff)
    then have "?d \<le> of_int N + 499 / 1000" by simp
    with tot have "round_double ?z + 1 / 2 < of_int N + 1" by linarith
    then have "round_double ?z + 1 / 2 < of_int (N + 1)" by simp
    then have "\<lfloor>round_double ?z + 1 / 2\<rfloor> < N + 1" by (simp only: floor_less_iff)
    then show "elapsedSeconds t (seconds t0) \<le> N"
      by (simp add: elapsedSeconds_def Math_round_def)
  }
qed

lemma elapsedSeconds_gt:
  "\<bar>t\<bar> \<le> 1000000000000000 \<Longrightarrow> \<bar>t0\<bar> \<le> 1000000000000000 \<Longrightarrow> 1000 * N + 501 \<le> t - t0
     \<Longrightarrow> (N < elapsedSeconds t (seconds t0)) = True"
  using elapsedSeconds_bounds(1)[of t t0 N] by simp

lemma elapsedSeconds_le:
  "\<bar>t\<bar> \<le> 1000000000000000 \<Longrightarrow> \<bar>t0\<bar> \<le> 1000000000000000 \<Longrightarrow> t - t0 \<le> 1000 * N + 499
     \<Longrightarrow> (N < elapsedSeconds t (seconds t0)) = False"
  using elapsedSeconds_bounds(2)[of t t0 N] by simp

text \<open>
  Two pairs of readings that are 60500 milliseconds apart: the doubles round one
  difference down and the other up.
\<close>

lemma elapsedSeconds_at_the_half:
  "elapsedSeconds 547723 (seconds 487223) = 60"
  "elapsedSeconds 60500 (seconds 0) = 61"
  by code_simp+

subsection \<open>Strings\<close>

lemma split_x_not_Nil: "split_x s \<noteq> []"
  by (induction s) (auto simp: Let_def)

lemma is_digit_not_space: "is_digit c \<Longrightarrow> \<not> is_space c"
  by (auto simp: is_digit_def is_space_def)

lemma is_digit_not_sign: "is_digit c \<Longrightarrow> c \<noteq> CHR ''-'' \<and> c \<noteq> CHR ''+''"
  by (auto simp: is_digit_def)

lemma canonical_nat_parseInt:
  assumes "canonical_nat s = Some n"
  shows "parseInt (Some s) = Some (int n)"
proof -
  from assms have ne: "s \<noteq> []" and dig: "list_all is_digit s" and n: "n = digits_val s"
    by (auto simp: canonical_nat_def split: if_splits)
  from ne obtain c cs where s: "s = c # cs" by (cases s) auto
  with dig have c: "is_digit c" by simp
  have dw: "dropWhile is_space s = s"
    using c s by (simp add: is_digit_not_space)
  have tw: "takeWhile is_digit s = s"
    using dig by (simp add: takeWhile_eq_all_conv list_all_iff)
  have hd: "hd s \<noteq> CHR ''-''" "hd s \<noteq> CHR ''+''"
    using is_digit_not_sign[OF c] s by simp_all
  show ?thesis
    unfolding parseInt_def using ne hd n
    by (simp add: Let_def dw tw)
qed

subsection \<open>The lookup of a block\<close>

lemma resolve_block_frame:
  assumes "resolve_block env h s = (r, s1)"
  shows "fundingTxCache s1 = fundingTxCache s \<and> channelNewlyProcessed s1 = channelNewlyProcessed s
       \<and> blocksCache s1 = blocksCache s \<and> running s1 = running s
       \<and> walletMempoolTxs s1 = walletMempoolTxs s \<and> disk_writes s1 = disk_writes s
       \<and> ticks s1 = ticks s"
  using assms
  by (auto simp: resolve_block_def rpc_getBlockHash_def rpc_getBlock_def
           split: option.splits sum.splits)

subsection \<open>The block cache\<close>

lemma blocksCacheHashes_sorted: "sorted (blocksCacheHashes c)"
proof -
  have "sorted (map (\<lambda>h. - int h) (sort_key (\<lambda>h. - int h) (map fst c)))"
    by (rule sorted_sort_key)
  then have "sorted_wrt (\<lambda>x y. y \<le> x) (sort_key (\<lambda>h. - int h) (map fst c))"
    by (simp add: sorted_wrt_map)
  then show ?thesis
    by (simp add: blocksCacheHashes_def sorted_wrt_rev)
qed

lemma set_blocksCacheHashes: "set (blocksCacheHashes c) = fst ` set c"
  by (simp add: blocksCacheHashes_def)

lemma length_blocksCacheHashes: "length (blocksCacheHashes c) = length c"
  by (simp add: blocksCacheHashes_def)

lemma distinct_blocksCacheHashes:
  "distinct (map fst c) \<Longrightarrow> distinct (blocksCacheHashes c)"
  by (simp add: blocksCacheHashes_def)

lemma blocksCacheHashes_sort:
  "distinct (map fst c) \<Longrightarrow> blocksCacheHashes c = sort (map fst c)"
  by (rule sorted_distinct_set_unique)
     (simp_all add: blocksCacheHashes_sorted distinct_blocksCacheHashes set_blocksCacheHashes)

lemma fold_delete_filter:
  "fold AList.delete ks c = filter (\<lambda>p. fst p \<notin> set ks) c"
proof (induction ks arbitrary: c)
  case Nil
  then show ?case by simp
next
  case (Cons k ks)
  have "AList.delete k c = filter (\<lambda>p. fst p \<noteq> k) c"
    by (induction c) auto
  then show ?case
    by (simp add: Cons.IH)
qed


lemma length_filter_keys:
  assumes "distinct (map fst c)" and "R \<subseteq> fst ` set c"
  shows "length (filter (\<lambda>p. fst p \<in> R) c) = card R"
proof -
  let ?ks = "filter (\<lambda>k. k \<in> R) (map fst c)"
  have "map fst (filter (\<lambda>p. fst p \<in> R) c) = ?ks"
    by (simp add: filter_map comp_def)
  then have "length (filter (\<lambda>p. fst p \<in> R) c) = length ?ks"
    by (metis length_map)
  moreover have "distinct ?ks"
    using assms(1) by simp
  then have "card (set ?ks) = length ?ks"
    by (rule distinct_card)
  moreover have "set ?ks = R"
    using assms(2) by auto
  ultimately show ?thesis by simp
qed

lemma evict_small: "length c \<le> 100 \<Longrightarrow> evict c = c"
  by (simp add: evict_def length_blocksCacheHashes BLOCKS_CACHE_MAX_SIZE_def)

lemma evict_large:
  assumes d: "distinct (map fst c)" and big: "100 < length c"
  defines "R \<equiv> set (take 10 (blocksCacheHashes c))"
  shows "evict c = filter (\<lambda>p. fst p \<notin> R) c"
    and "R \<subseteq> fst ` set c"
    and "card R = 10"
    and "\<forall>a\<in>R. \<forall>k\<in>fst ` set c - R. a < k"
    and "length (evict c) = length c - 10"
proof -
  let ?hs = "blocksCacheHashes c"
  have len: "length ?hs = length c" by (rule length_blocksCacheHashes)
  have dh: "distinct ?hs" using d by (rule distinct_blocksCacheHashes)
  show ev: "evict c = filter (\<lambda>p. fst p \<notin> R) c"
    using big by (simp add: evict_def len BLOCKS_CACHE_MAX_SIZE_def fold_delete_filter R_def)
  show sub: "R \<subseteq> fst ` set c"
    using set_take_subset[of 10 ?hs] by (simp add: R_def set_blocksCacheHashes)
  have "card R = length (take 10 ?hs)"
    unfolding R_def using dh by (simp add: distinct_card)
  then show card: "card R = 10"
    using big len by simp
  have split: "?hs = take 10 ?hs @ drop 10 ?hs" by simp
  have "sorted (take 10 ?hs @ drop 10 ?hs)"
    using blocksCacheHashes_sorted[of c] by simp
  from this[unfolded sorted_append]
  have le: "\<forall>a\<in>set (take 10 ?hs). \<forall>k\<in>set (drop 10 ?hs). a \<le> k"
    by (elim conjE)
  have disj: "set (take 10 ?hs) \<inter> set (drop 10 ?hs) = {}"
    using dh by (rule set_take_disj_set_drop_if_distinct) simp
  have rest: "fst ` set c - R = set (drop 10 ?hs)"
  proof -
    have "set ?hs = set (take 10 ?hs) \<union> set (drop 10 ?hs)"
      by (metis split set_append)
    then show ?thesis
      using disj by (auto simp: R_def set_blocksCacheHashes)
  qed
  show "\<forall>a\<in>R. \<forall>k\<in>fst ` set c - R. a < k"
  proof (intro ballI)
    fix a k assume a: "a \<in> R" and k: "k \<in> fst ` set c - R"
    from k rest have k': "k \<in> set (drop 10 ?hs)" by simp
    from a have a': "a \<in> set (take 10 ?hs)" by (simp add: R_def)
    from le a' k' have "a \<le> k" by blast
    moreover from disj a' k' have "a \<noteq> k" by blast
    ultimately show "a < k" by simp
  qed
  have "length (filter (\<lambda>p. fst p \<in> R) c) + length (filter (\<lambda>p. \<not> fst p \<in> R) c) = length c"
    by (rule sum_length_filter_compl)
  then show "length (evict c) = length c - 10"
    using length_filter_keys[OF d sub] card ev by simp
qed

lemma distinct_evict: "distinct (map fst c) \<Longrightarrow> distinct (map fst (evict c))"
  by (simp add: evict_def Let_def fold_delete_filter distinct_map_filter)

lemma distinct_cache_block: "distinct (map fst c) \<Longrightarrow> distinct (map fst (cache_block b c))"
  by (simp add: cache_block_def distinct_evict AList.distinct_update)

lemma length_update_le: "length (AList.update k v c) \<le> Suc (length c)"
  by (induction c) auto

lemma length_cache_block:
  assumes "distinct (map fst c)" and "length c \<le> 100"
  shows "length (cache_block b c) \<le> 100"
proof (cases "100 < length (AList.update (height b) b c)")
  case True
  have "length (evict (AList.update (height b) b c)) = length (AList.update (height b) b c) - 10"
    using assms(1) True by (intro evict_large(5)) (simp add: AList.distinct_update)
  then show ?thesis
    using length_update_le[of "height b" b c] assms(2) by (simp add: cache_block_def)
next
  case False
  then show ?thesis by (simp add: cache_block_def evict_small)
qed

lemma store_funding_tx_frame:
  assumes "store_funding_tx channelId b t outputIdx decoded s = (r, s')"
  shows "blocksCache s' = blocksCache s \<and> running s' = running s
       \<and> walletMempoolTxs s' = walletMempoolTxs s \<and> disk_writes s' = disk_writes s
       \<and> rpc_calls s' = rpc_calls s \<and> ticks s' = ticks s"
  using assms
  by (auto simp: store_funding_tx_def Let_def split: option.splits if_splits)

lemma fetchChannelOpenTx_blocksCache:
  assumes "fetchChannelOpenTx env channelId0 s = (r, s')"
  shows "blocksCache s' = blocksCache s \<or> (\<exists>b. blocksCache s' = cache_block b (blocksCache s))"
proof (cases "channelIntegerIdToShortId env channelId0")
  case (Inl e)
  with assms show ?thesis by (simp add: fetchChannelOpenTx_def)
next
  case (Inr channelId)
  show ?thesis
  proof (cases "fundingTxCache s channelId")
    case (Some v)
    with Inr assms show ?thesis by (simp add: fetchChannelOpenTx_def)
  next
    case None
    obtain rb s1 where rb: "resolve_block env (hd (split_x channelId)) s = (rb, s1)"
      by (cases "resolve_block env (hd (split_x channelId)) s")
    note fr = resolve_block_frame[OF rb]
    show ?thesis
    proof (cases rb)
      case (Thrown e)
      with Inr None rb assms fr show ?thesis
        by (simp add: fetchChannelOpenTx_def Let_def)
    next
      case (Returned b)
      have "blocksCache s' = cache_block b (blocksCache s)"
        using Inr None rb Returned assms fr
        by (auto simp: fetchChannelOpenTx_def Let_def rpc_getRawTransaction_def
              rpc_decodeRawTransaction_def
            split: sum.splits dest!: store_funding_tx_frame)
      then show ?thesis by blast
    qed
  qed
qed

subsection \<open>What each step leaves alone\<close>

lemma fetchChannelOpenTx_frame:
  assumes "fetchChannelOpenTx env channelId0 s = (r, s')"
  shows "running s' = running s \<and> walletMempoolTxs s' = walletMempoolTxs s
       \<and> disk_writes s' = disk_writes s \<and> ticks s' = ticks s"
proof (cases "channelIntegerIdToShortId env channelId0")
  case (Inl e)
  with assms show ?thesis by (simp add: fetchChannelOpenTx_def)
next
  case (Inr channelId)
  show ?thesis
  proof (cases "fundingTxCache s channelId")
    case (Some v)
    with Inr assms show ?thesis by (simp add: fetchChannelOpenTx_def)
  next
    case None
    obtain rb s1 where rb: "resolve_block env (hd (split_x channelId)) s = (rb, s1)"
      by (cases "resolve_block env (hd (split_x channelId)) s")
    note fr = resolve_block_frame[OF rb]
    show ?thesis
    proof (cases rb)
      case (Thrown e)
      with Inr None rb assms fr show ?thesis
        by (simp add: fetchChannelOpenTx_def Let_def)
    next
      case (Returned b)
      show ?thesis
        using Inr None rb Returned assms fr
        by (auto simp: fetchChannelOpenTx_def Let_def rpc_getRawTransaction_def
              rpc_decodeRawTransaction_def
            split: sum.splits dest!: store_funding_tx_frame)
    qed
  qed
qed

lemma progress_log_frame:
  assumes "progress_log env loggerTimer s = (l, s')"
  shows "running s' = running s \<and> disk_writes s' = disk_writes s
       \<and> fundingTxCache s' = fundingTxCache s
       \<and> channelNewlyProcessed s' = channelNewlyProcessed s
       \<and> blocksCache s' = blocksCache s \<and> walletMempoolTxs s' = walletMempoolTxs s
       \<and> rpc_calls s' = rpc_calls s"
  using assms by (auto simp: progress_log_def now_def Let_def split: if_splits)

lemma progress_log_eq:
  "progress_log env loggerTimer s =
     (if LOGGER_UPDATE_INTERVAL env < elapsedSeconds (clock env (ticks s)) loggerTimer
      then (seconds (clock env (ticks s + 2)), s\<lparr>ticks := ticks s + 3\<rparr>)
      else (loggerTimer, s\<lparr>ticks := Suc (ticks s)\<rparr>))"
  by (simp add: progress_log_def now_def Let_def numeral_3_eq_3 numeral_2_eq_2)

lemma checkpoint_eq:
  "checkpoint env cacheTimer s =
     (if 60 < elapsedSeconds (clock env (ticks s)) cacheTimer
      then (seconds (clock env (Suc (ticks s))),
            s\<lparr>ticks := ticks s + 2,
              disk_writes := disk_writes s @ [(CheckpointFlush, fundingTxCache s)]\<rparr>)
      else (cacheTimer, s\<lparr>ticks := Suc (ticks s)\<rparr>))"
  by (simp add: checkpoint_def now_def flush_def Let_def)

lemma checkpoint_frame:
  assumes "checkpoint env cacheTimer s = (c, s')"
  shows "running s' = running s
       \<and> fundingTxCache s' = fundingTxCache s
       \<and> channelNewlyProcessed s' = channelNewlyProcessed s
       \<and> blocksCache s' = blocksCache s \<and> walletMempoolTxs s' = walletMempoolTxs s
       \<and> rpc_calls s' = rpc_calls s
       \<and> (disk_writes s' = disk_writes s
            \<or> disk_writes s' = disk_writes s @ [(CheckpointFlush, fundingTxCache s)])"
  using assms by (auto simp: checkpoint_eq split: if_splits)

lemma fetch_loop_frame:
  assumes "fetch_loop env channelIds cacheTimer loggerTimer s = (r, s')"
  shows "running s' = running s \<and> walletMempoolTxs s' = walletMempoolTxs s
       \<and> (\<exists>ws. disk_writes s' = disk_writes s @ ws \<and> (\<forall>w\<in>set ws. fst w = CheckpointFlush))"
  using assms
proof (induction channelIds arbitrary: cacheTimer loggerTimer s)
  case Nil
  then show ?case by simp
next
  case (Cons channelId rest)
  obtain r1 s1 where f: "fetchChannelOpenTx env channelId s = (r1, s1)"
    by (cases "fetchChannelOpenTx env channelId s")
  note f1 = fetchChannelOpenTx_frame[OF f]
  show ?case
  proof (cases r1)
    case (Thrown e)
    with Cons.prems f f1 show ?thesis by simp
  next
    case (Returned v)
    obtain l s2 where p: "progress_log env loggerTimer s1 = (l, s2)"
      by (cases "progress_log env loggerTimer s1")
    obtain c s3 where c: "checkpoint env cacheTimer s2 = (c, s3)"
      by (cases "checkpoint env cacheTimer s2")
    from Cons.prems f Returned p c
    have rest: "fetch_loop env rest c l s3 = (r, s')" by simp
    note IH = Cons.IH[OF rest]
    note f2 = progress_log_frame[OF p]
    note f3 = checkpoint_frame[OF c]
    from IH obtain ws where ws: "disk_writes s' = disk_writes s3 @ ws"
      "\<forall>w\<in>set ws. fst w = CheckpointFlush" by blast
    from f3 f2 f1 have "\<exists>ws0. disk_writes s3 = disk_writes s @ ws0 \<and> (\<forall>w\<in>set ws0. fst w = CheckpointFlush)"
      by auto
    then obtain ws0 where ws0: "disk_writes s3 = disk_writes s @ ws0"
      "\<forall>w\<in>set ws0. fst w = CheckpointFlush" by blast
    have "disk_writes s' = disk_writes s @ (ws0 @ ws)" using ws ws0 by simp
    moreover have "\<forall>w\<in>set (ws0 @ ws). fst w = CheckpointFlush" using ws ws0 by auto
    ultimately have "\<exists>ws. disk_writes s' = disk_writes s @ ws \<and> (\<forall>w\<in>set ws. fst w = CheckpointFlush)"
      by blast
    then show ?thesis using IH f1 f2 f3 by simp
  qed
qed

lemma scan_entry_frame:
  assumes "scan_entry env t details s = (r, s')"
  shows "running s' = running s \<and> disk_writes s' = disk_writes s
       \<and> fundingTxCache s' = fundingTxCache s
       \<and> channelNewlyProcessed s' = channelNewlyProcessed s
       \<and> blocksCache s' = blocksCache s \<and> walletMempoolTxs s' = walletMempoolTxs s
       \<and> ticks s' = ticks s"
  using assms
  by (auto simp: scan_entry_def rpc_getRawTransaction_def rpc_decodeRawTransaction_def
        split: sum.splits option.splits outcome.splits if_splits)

lemma scanMempool_frame:
  assumes "scanMempool env entries acc s = (r, s')"
  shows "running s' = running s \<and> disk_writes s' = disk_writes s
       \<and> fundingTxCache s' = fundingTxCache s
       \<and> channelNewlyProcessed s' = channelNewlyProcessed s
       \<and> blocksCache s' = blocksCache s \<and> walletMempoolTxs s' = walletMempoolTxs s
       \<and> ticks s' = ticks s"
  using assms
proof (induction entries arbitrary: acc s)
  case Nil
  then show ?case by simp
next
  case (Cons entry rest)
  obtain t details where entry: "entry = (t, details)" by (cases entry)
  obtain r1 s1 where e: "scan_entry env t details s = (r1, s1)"
    by (cases "scan_entry env t details s")
  note f1 = scan_entry_frame[OF e]
  show ?case
  proof (cases r1)
    case (Thrown x)
    with Cons.prems entry e f1 show ?thesis by simp
  next
    case (Returned w)
    show ?thesis
    proof (cases w)
      case None
      with Cons.prems entry e Returned
      have "scanMempool env rest acc s1 = (r, s')" by simp
      from Cons.IH[OF this] f1 show ?thesis by simp
    next
      case (Some x)
      with Cons.prems entry e Returned
      have "scanMempool env rest (acc @ [x]) s1 = (r, s')" by simp
      from Cons.IH[OF this] f1 show ?thesis by simp
    qed
  qed
qed

lemma monitor_try_frame:
  assumes "monitor_try env s = (r, s')"
  shows "running s' = running s \<and> disk_writes s' = disk_writes s
       \<and> channelNewlyProcessed s' = channelNewlyProcessed s
       \<and> blocksCache s' = blocksCache s \<and> ticks s' = ticks s"
proof (cases "getAddressTxs env MY_LIGHTNING_WALLET_ADDRESS")
  case (Inl e)
  with assms show ?thesis
    by (auto simp: monitor_try_def rpc_getAddressTxs_def)
next
  case a: (Inr confirmedTxs)
  show ?thesis
  proof (cases "getRawMempool env True")
    case (Inl e)
    with assms a show ?thesis
      by (auto simp: monitor_try_def rpc_getAddressTxs_def rpc_getRawMempool_def)
  next
    case m: (Inr mempoolEntries)
    let ?s2 = "s\<lparr>rpc_calls := rpc_calls s @ [GetAddressTxs MY_LIGHTNING_WALLET_ADDRESS],
                 rpc_calls := rpc_calls s @ [GetAddressTxs MY_LIGHTNING_WALLET_ADDRESS] @ [GetRawMempool True]\<rparr>"
    obtain r3 s3 where sc: "scanMempool env mempoolEntries [] ?s2 = (r3, s3)"
      by (metis surj_pair)
    note fr = scanMempool_frame[OF sc]
    show ?thesis
      using assms a m sc fr
      by (cases r3) (auto simp: monitor_try_def rpc_getAddressTxs_def rpc_getRawMempool_def Let_def)
  qed
qed

lemma monitorLightningWallet_frame:
  "running (monitorLightningWallet env s) = running s
   \<and> disk_writes (monitorLightningWallet env s) = disk_writes s
   \<and> channelNewlyProcessed (monitorLightningWallet env s) = channelNewlyProcessed s
   \<and> blocksCache (monitorLightningWallet env s) = blocksCache s
   \<and> ticks (monitorLightningWallet env s) = ticks s"
  using monitor_try_frame[of env s "fst (monitor_try env s)" "snd (monitor_try env s)"]
  by (simp add: monitorLightningWallet_def)

lemma fetchChannelsFundingTxs_started:
  assumes "\<not> running s"
  shows "fetchChannelsFundingTxs env channelIds s =
           (case fetch_loop env channelIds (seconds (clock env (ticks s + 1))) (seconds (clock env (ticks s + 2)))
                   (s\<lparr>running := True, ticks := ticks s + 3, channelNewlyProcessed := 0\<rparr>) of
              (Thrown e, s6) \<Rightarrow> (Thrown e, s6)
            | (Returned u, s6) \<Rightarrow>
                (Returned (), (monitorLightningWallet env (final_flush s6))\<lparr>running := False\<rparr>))"
  using assms
  by (simp add: fetchChannelsFundingTxs_def now_def Let_def numeral_3_eq_3
        split: prod.split outcome.split)

lemma guard_stuck:
  assumes idle: "\<not> running s"
      and thrown: "fetchChannelsFundingTxs env channelIds s = (Thrown e, s')"
  shows "running s'"
proof -
  let ?s0 = "s\<lparr>running := True, ticks := ticks s + 3, channelNewlyProcessed := 0\<rparr>"
  obtain r6 s6 where loop:
    "fetch_loop env channelIds (seconds (clock env (ticks s + 1))) (seconds (clock env (ticks s + 2))) ?s0 = (r6, s6)"
    by (metis surj_pair)
  from thrown loop have "r6 = Thrown e" "s6 = s'"
    by (auto simp: fetchChannelsFundingTxs_started[OF idle] split: outcome.splits)
  with fetch_loop_frame[OF loop] show ?thesis by simp
qed

lemma guard_released:
  assumes idle: "\<not> running s"
      and returned: "fetchChannelsFundingTxs env channelIds s = (Returned u, s')"
  shows "\<not> running s'"
  using returned
  by (auto simp: fetchChannelsFundingTxs_started[OF idle] split: prod.splits outcome.splits)

subsection \<open>The counter of newly processed channels\<close>

lemma store_funding_tx_counter:
  assumes "store_funding_tx channelId b t outputIdx decoded s = (r, s')"
      and "fundingTxCache s channelId = None"
  shows "(\<forall>k. fundingTxCache s k \<noteq> None \<longrightarrow> fundingTxCache s' k = fundingTxCache s k)
       \<and> channelNewlyProcessed s \<le> channelNewlyProcessed s'
       \<and> (channelNewlyProcessed s < channelNewlyProcessed s'
            \<longleftrightarrow> (\<exists>k. fundingTxCache s k = None \<and> fundingTxCache s' k \<noteq> None))"
  using assms
  by (auto simp: store_funding_tx_def Let_def split: option.splits if_splits)

lemma fetchChannelOpenTx_counter:
  assumes "fetchChannelOpenTx env channelId0 s = (r, s')"
  shows "(\<forall>k. fundingTxCache s k \<noteq> None \<longrightarrow> fundingTxCache s' k = fundingTxCache s k)
       \<and> channelNewlyProcessed s \<le> channelNewlyProcessed s'
       \<and> (channelNewlyProcessed s < channelNewlyProcessed s'
            \<longleftrightarrow> (\<exists>k. fundingTxCache s k = None \<and> fundingTxCache s' k \<noteq> None))"
proof (cases "channelIntegerIdToShortId env channelId0")
  case (Inl e)
  with assms show ?thesis by (auto simp: fetchChannelOpenTx_def)
next
  case (Inr channelId)
  show ?thesis
  proof (cases "fundingTxCache s channelId")
    case (Some v)
    with Inr assms show ?thesis by (auto simp: fetchChannelOpenTx_def)
  next
    case None
    obtain rb s1 where rb: "resolve_block env (hd (split_x channelId)) s = (rb, s1)"
      by (cases "resolve_block env (hd (split_x channelId)) s")
    note fr = resolve_block_frame[OF rb]
    show ?thesis
    proof (cases rb)
      case (Thrown e)
      with Inr None rb assms fr show ?thesis
        by (auto simp: fetchChannelOpenTx_def Let_def)
    next
      case (Returned b)
      let ?t = "js_index (tx b) (nth_opt (split_x channelId) 1)"
      let ?s2 = "s1\<lparr>blocksCache := cache_block b (blocksCache s1)\<rparr>"
      let ?s3 = "?s2\<lparr>rpc_calls := rpc_calls ?s2 @ [GetRawTransaction ?t False]\<rparr>"
      show ?thesis
      proof (cases "getRawTransaction env ?t False")
        case (Inl e)
        with Inr None rb Returned assms fr show ?thesis
          by (auto simp: fetchChannelOpenTx_def Let_def rpc_getRawTransaction_def)
      next
        case raw: (Inr rawTx)
        show ?thesis
        proof (cases "decodeRawTransaction env rawTx")
          case (Inl e)
          with raw Inr None rb Returned assms fr show ?thesis
            by (auto simp: fetchChannelOpenTx_def Let_def rpc_getRawTransaction_def
                  rpc_decodeRawTransaction_def)
        next
          case dec: (Inr decoded)
          let ?s4 = "?s3\<lparr>rpc_calls := rpc_calls ?s3 @ [DecodeRawTransaction rawTx]\<rparr>"
          have st: "store_funding_tx channelId b ?t (nth_opt (split_x channelId) 2) decoded ?s4 = (r, s')"
            using dec raw Inr None rb Returned assms
            by (simp add: fetchChannelOpenTx_def Let_def rpc_getRawTransaction_def
                  rpc_decodeRawTransaction_def)
          have "fundingTxCache ?s4 channelId = None"
            using None fr by simp
          from store_funding_tx_counter[OF st this] fr show ?thesis
            by simp
        qed
      qed
    qed
  qed
qed

lemma fetch_loop_counter:
  assumes "fetch_loop env channelIds cacheTimer loggerTimer s = (r, s')"
  shows "(\<forall>k. fundingTxCache s k \<noteq> None \<longrightarrow> fundingTxCache s' k = fundingTxCache s k)
       \<and> channelNewlyProcessed s \<le> channelNewlyProcessed s'
       \<and> (channelNewlyProcessed s < channelNewlyProcessed s'
            \<longleftrightarrow> (\<exists>k. fundingTxCache s k = None \<and> fundingTxCache s' k \<noteq> None))"
  using assms
proof (induction channelIds arbitrary: cacheTimer loggerTimer s)
  case Nil
  then show ?case by auto
next
  case (Cons channelId rest)
  obtain r1 s1 where f: "fetchChannelOpenTx env channelId s = (r1, s1)"
    by (cases "fetchChannelOpenTx env channelId s")
  note c1 = fetchChannelOpenTx_counter[OF f]
  show ?case
  proof (cases r1)
    case (Thrown e)
    with Cons.prems f c1 show ?thesis by auto
  next
    case (Returned v)
    obtain l s2 where p: "progress_log env loggerTimer s1 = (l, s2)"
      by (cases "progress_log env loggerTimer s1")
    obtain c s3 where c: "checkpoint env cacheTimer s2 = (c, s3)"
      by (cases "checkpoint env cacheTimer s2")
    from Cons.prems f Returned p c
    have rest: "fetch_loop env rest c l s3 = (r, s')" by simp
    note IH = Cons.IH[OF rest]
    have same: "fundingTxCache s3 = fundingTxCache s1"
      "channelNewlyProcessed s3 = channelNewlyProcessed s1"
      using progress_log_frame[OF p] checkpoint_frame[OF c] by simp_all
    have mono1: "\<forall>k. fundingTxCache s k \<noteq> None \<longrightarrow> fundingTxCache s1 k = fundingTxCache s k"
      and le1: "channelNewlyProcessed s \<le> channelNewlyProcessed s1"
      and iff1: "channelNewlyProcessed s < channelNewlyProcessed s1
            \<longleftrightarrow> (\<exists>k. fundingTxCache s k = None \<and> fundingTxCache s1 k \<noteq> None)"
      using c1 by blast+
    have mono2: "\<forall>k. fundingTxCache s1 k \<noteq> None \<longrightarrow> fundingTxCache s' k = fundingTxCache s1 k"
      and le2: "channelNewlyProcessed s1 \<le> channelNewlyProcessed s'"
      and iff2: "channelNewlyProcessed s1 < channelNewlyProcessed s'
            \<longleftrightarrow> (\<exists>k. fundingTxCache s1 k = None \<and> fundingTxCache s' k \<noteq> None)"
      using IH same by simp_all
    have A: "\<forall>k. fundingTxCache s k \<noteq> None \<longrightarrow> fundingTxCache s' k = fundingTxCache s k"
      using mono1 mono2 by metis
    have B: "channelNewlyProcessed s \<le> channelNewlyProcessed s'"
      using le1 le2 by simp
    have C: "channelNewlyProcessed s < channelNewlyProcessed s'
            \<longleftrightarrow> (\<exists>k. fundingTxCache s k = None \<and> fundingTxCache s' k \<noteq> None)"
    proof
      assume "channelNewlyProcessed s < channelNewlyProcessed s'"
      then consider "channelNewlyProcessed s < channelNewlyProcessed s1"
        | "channelNewlyProcessed s1 < channelNewlyProcessed s'"
        by linarith
      then show "\<exists>k. fundingTxCache s k = None \<and> fundingTxCache s' k \<noteq> None"
      proof cases
        case 1
        with iff1 obtain k where k: "fundingTxCache s k = None" "fundingTxCache s1 k \<noteq> None"
          by blast
        with mono2 have "fundingTxCache s' k \<noteq> None" by simp
        with k show ?thesis by blast
      next
        case 2
        with iff2 obtain k where k: "fundingTxCache s1 k = None" "fundingTxCache s' k \<noteq> None"
          by blast
        have "fundingTxCache s k = None"
        proof (rule ccontr)
          assume "fundingTxCache s k \<noteq> None"
          with mono1 k(1) show False by simp
        qed
        with k show ?thesis by blast
      qed
    next
      assume "\<exists>k. fundingTxCache s k = None \<and> fundingTxCache s' k \<noteq> None"
      then obtain k where k: "fundingTxCache s k = None" "fundingTxCache s' k \<noteq> None"
        by blast
      show "channelNewlyProcessed s < channelNewlyProcessed s'"
      proof (cases "fundingTxCache s1 k")
        case None
        with k iff2 have "channelNewlyProcessed s1 < channelNewlyProcessed s'" by blast
        with le1 show ?thesis by simp
      next
        case (Some v)
        with k iff1 have "channelNewlyProcessed s < channelNewlyProcessed s1" by auto
        with le2 show ?thesis by simp
      qed
    qed
    from A B C show ?thesis by blast
  qed
qed

subsection \<open>The loop over the channel ids\<close>

lemma all_cached_fetch:
  assumes "all_cached env (c # cs) s"
  shows "\<exists>r. fetchChannelOpenTx env c s = (Returned (Some r), s)"
  using assms
  by (auto simp: all_cached_def fetchChannelOpenTx_def split: sum.splits)

lemma all_cached_cong:
  "fundingTxCache s' = fundingTxCache s \<Longrightarrow> all_cached env cs s' = all_cached env cs s"
  by (simp add: all_cached_def cong: sum.case_cong)

lemma fetch_loop_all_cached:
  assumes "all_cached env channelIds s"
      and "fetch_loop env channelIds cacheTimer loggerTimer s = (r, s')"
  shows "r = Returned () \<and> fundingTxCache s' = fundingTxCache s
       \<and> channelNewlyProcessed s' = channelNewlyProcessed s"
  using assms
proof (induction channelIds arbitrary: cacheTimer loggerTimer s)
  case Nil
  then show ?case by simp
next
  case (Cons c cs)
  from all_cached_fetch[OF Cons.prems(1)] obtain v
    where f: "fetchChannelOpenTx env c s = (Returned (Some v), s)" by blast
  obtain l s2 where p: "progress_log env loggerTimer s = (l, s2)"
    by (cases "progress_log env loggerTimer s")
  obtain t s3 where ck: "checkpoint env cacheTimer s2 = (t, s3)"
    by (cases "checkpoint env cacheTimer s2")
  have same: "fundingTxCache s3 = fundingTxCache s"
    "channelNewlyProcessed s3 = channelNewlyProcessed s"
    using progress_log_frame[OF p] checkpoint_frame[OF ck] by simp_all
  from Cons.prems(1) have "all_cached env cs s" by (simp add: all_cached_def)
  then have ac: "all_cached env cs s3" using all_cached_cong[OF same(1)] by simp
  from Cons.prems(2) f p ck have "fetch_loop env cs t l s3 = (r, s')" by simp
  from Cons.IH[OF ac this] same show ?case by simp
qed


subsection \<open>The funding cache across the wallet monitor and the final flush\<close>

lemma monitor_try_cache:
  assumes "monitor_try env s = (r, s')"
  shows "fundingTxCache s' = fundingTxCache s
       \<or> (\<exists>c. fundingTxCache s' = (fundingTxCache s)(MY_LIGHTNING_WALLET_ADDRESS \<mapsto> AddressTxs c))"
proof (cases "getAddressTxs env MY_LIGHTNING_WALLET_ADDRESS")
  case (Inl e)
  with assms show ?thesis
    by (auto simp: monitor_try_def rpc_getAddressTxs_def)
next
  case a: (Inr confirmedTxs)
  show ?thesis
  proof (cases "getRawMempool env True")
    case (Inl e)
    with assms a show ?thesis
      by (auto simp: monitor_try_def rpc_getAddressTxs_def rpc_getRawMempool_def)
  next
    case m: (Inr mempoolEntries)
    let ?s2 = "s\<lparr>rpc_calls := rpc_calls s @ [GetAddressTxs MY_LIGHTNING_WALLET_ADDRESS],
                 rpc_calls := rpc_calls s @ [GetAddressTxs MY_LIGHTNING_WALLET_ADDRESS] @ [GetRawMempool True]\<rparr>"
    obtain r3 s3 where sc: "scanMempool env mempoolEntries [] ?s2 = (r3, s3)"
      by (metis surj_pair)
    note fr = scanMempool_frame[OF sc]
    show ?thesis
      using assms a m sc fr
      by (cases r3) (auto simp: monitor_try_def rpc_getAddressTxs_def rpc_getRawMempool_def Let_def)
  qed
qed

lemma monitorLightningWallet_cache:
  "fundingTxCache (monitorLightningWallet env s) = fundingTxCache s
   \<or> (\<exists>c. fundingTxCache (monitorLightningWallet env s)
             = (fundingTxCache s)(MY_LIGHTNING_WALLET_ADDRESS \<mapsto> AddressTxs c))"
  using monitor_try_cache[of env s "fst (monitor_try env s)" "snd (monitor_try env s)"]
  by (simp add: monitorLightningWallet_def)

lemma final_flush_sel:
  "fundingTxCache (final_flush s) = fundingTxCache s"
  "channelNewlyProcessed (final_flush s) = channelNewlyProcessed s"
  "running (final_flush s) = running s"
  "ticks (final_flush s) = ticks s"
  "blocksCache (final_flush s) = blocksCache s"
  "disk_writes (final_flush s) =
     disk_writes s @ (if 0 < channelNewlyProcessed s then [(FinalFlush, fundingTxCache s)] else [])"
  by (simp_all add: final_flush_def flush_def)

subsection \<open>The wallet monitor\<close>

lemma sendsToMe_Returned:
  "sendsToMe outs = Returned b \<Longrightarrow> b = list_ex pays_me outs"
  by (induction outs) (auto simp: pays_me_def split: option.splits if_splits)

lemma receivedAmount_Returned:
  "receivedAmount acc outs = Returned a
     \<Longrightarrow> a = foldl js_add acc (map out_value (filter pays_me outs))"
  by (induction outs arbitrary: acc) (auto simp: pays_me_def split: option.splits if_splits)

lemma scan_entry_Returned:
  assumes "scan_entry env t details s = (Returned w, s')"
  shows "w = (if sends_to_wallet env t
              then Some \<lparr>wallet_txid = t,
                     amount = (case decoded_outputs env t of None \<Rightarrow> None | Some outs \<Rightarrow> matching_sum outs),
                     fee = entry_fee details, vsize = entry_vsize details\<rparr>
              else None)"
proof (cases "getRawTransaction env (Some t) True")
  case (Inl e)
  with assms show ?thesis
    by (simp add: scan_entry_def rpc_getRawTransaction_def)
next
  case raw: (Inr rawTx)
  show ?thesis
  proof (cases "decodeRawTransaction env rawTx")
    case (Inl e)
    with assms raw show ?thesis
      by (simp add: scan_entry_def rpc_getRawTransaction_def rpc_decodeRawTransaction_def)
  next
    case dec: (Inr decoded)
    show ?thesis
    proof (cases decoded)
      case None
      with assms raw dec show ?thesis
        by (simp add: scan_entry_def rpc_getRawTransaction_def rpc_decodeRawTransaction_def)
    next
      case d: (Some d)
      show ?thesis
      proof (cases "vout d")
        case None
        with assms raw dec d show ?thesis
          by (simp add: scan_entry_def rpc_getRawTransaction_def rpc_decodeRawTransaction_def)
      next
        case outs: (Some outs)
        have douts: "decoded_outputs env t = Some outs"
          using raw dec d outs by (simp add: decoded_outputs_def)
        show ?thesis
        proof (cases "sendsToMe outs")
          case (Thrown e)
          with assms raw dec d outs show ?thesis
            by (simp add: scan_entry_def rpc_getRawTransaction_def rpc_decodeRawTransaction_def)
        next
          case (Returned b)
          note b = sendsToMe_Returned[OF Returned]
          show ?thesis
          proof (cases b)
            case False
            with assms raw dec d outs Returned b douts show ?thesis
              by (simp add: scan_entry_def rpc_getRawTransaction_def rpc_decodeRawTransaction_def
                    sends_to_wallet_def)
          next
            case True
            show ?thesis
            proof (cases "receivedAmount (Some 0) outs")
              case (Thrown e)
              with assms raw dec d outs Returned True show ?thesis
                by (simp add: scan_entry_def rpc_getRawTransaction_def rpc_decodeRawTransaction_def)
            next
              case a: (Returned a)
              from receivedAmount_Returned[OF a] have "a = matching_sum outs"
                by (simp add: matching_sum_def)
              with assms raw dec d outs Returned True a b douts show ?thesis
                by (simp add: scan_entry_def rpc_getRawTransaction_def rpc_decodeRawTransaction_def
                      sends_to_wallet_def)
            qed
          qed
        qed
      qed
    qed
  qed
qed

lemma scanMempool_Returned:
  assumes "scanMempool env entries acc s = (Returned txs, s')"
  shows "txs = acc @ wallet_snapshot env entries"
  using assms
proof (induction entries arbitrary: acc s)
  case Nil
  then show ?case by (simp add: wallet_snapshot_def)
next
  case (Cons entry rest)
  obtain t details where entry: "entry = (t, details)" by (cases entry)
  obtain r1 s1 where e: "scan_entry env t details s = (r1, s1)"
    by (cases "scan_entry env t details s")
  show ?case
  proof (cases r1)
    case (Thrown x)
    with Cons.prems entry e show ?thesis by simp
  next
    case (Returned w)
    note w = scan_entry_Returned[OF e[unfolded Returned]]
    show ?thesis
    proof (cases w)
      case None
      with Cons.prems entry e Returned
      have "scanMempool env rest acc s1 = (Returned txs, s')" by simp
      from Cons.IH[OF this] w None entry show ?thesis
        by (simp add: wallet_snapshot_def split: if_splits)
    next
      case (Some x)
      with Cons.prems entry e Returned
      have "scanMempool env rest (acc @ [x]) s1 = (Returned txs, s')" by simp
      from Cons.IH[OF this] w Some entry show ?thesis
        by (simp add: wallet_snapshot_def split: if_splits)
    qed
  qed
qed

subsection \<open>The block cache after a resolution\<close>

lemma cache_block_cases:
  assumes d: "distinct (map fst c0)"
  shows "let c = AList.update (height b) b c0;
             R = set (take 10 (sort (map fst c)))
         in if 100 < length c
            then card R = 10 \<and> R \<subseteq> fst ` set c \<and> (\<forall>a\<in>R. \<forall>k\<in>fst ` set c - R. a < k)
                 \<and> cache_block b c0 = filter (\<lambda>p. fst p \<notin> R) c
            else cache_block b c0 = c"
proof -
  let ?c = "AList.update (height b) b c0"
  have dc: "distinct (map fst ?c)" using d by (simp add: AList.distinct_update)
  show ?thesis
  proof (cases "100 < length ?c")
    case True
    note ev = evict_large[OF dc True]
    have R: "blocksCacheHashes ?c = sort (map fst ?c)"
      using dc by (rule blocksCacheHashes_sort)
    from ev show ?thesis
      using True unfolding R by (simp add: Let_def cache_block_def)
  next
    case False
    then show ?thesis by (simp add: Let_def cache_block_def evict_small)
  qed
qed

lemma map_of_filter_key:
  "map_of (filter (\<lambda>p. fst p \<notin> R) c) k = (if k \<in> R then None else map_of c k)"
  by (induction c) auto

lemma store_funding_tx_None:
  assumes "store_funding_tx channelId b t outputIdx decoded s = (Returned None, s')"
  shows "s' = s"
  using assms
  by (auto simp: store_funding_tx_def Let_def split: option.splits if_splits)

subsection \<open>The calls a resolution makes\<close>



subsection \<open>The bound of the block cache, across a batch\<close>

lemma blocksCache_bounded_initial: "blocksCache_bounded initial_state"
  by (simp add: blocksCache_bounded_def initial_state_def)

lemma fetchChannelOpenTx_blocksCache_bounded:
  assumes "blocksCache_bounded s" and "fetchChannelOpenTx env channelId0 s = (r, s')"
  shows "blocksCache_bounded s'"
  using fetchChannelOpenTx_blocksCache[OF assms(2)] assms(1)
  by (auto simp: blocksCache_bounded_def BLOCKS_CACHE_MAX_SIZE_def distinct_cache_block
        length_cache_block)

lemma fetch_loop_blocksCache:
  assumes "blocksCache_bounded s"
      and "fetch_loop env channelIds cacheTimer loggerTimer s = (r, s')"
  shows "blocksCache_bounded s'"
  using assms
proof (induction channelIds arbitrary: cacheTimer loggerTimer s)
  case Nil
  then show ?case by simp
next
  case (Cons channelId rest)
  obtain r1 s1 where f: "fetchChannelOpenTx env channelId s = (r1, s1)"
    by (cases "fetchChannelOpenTx env channelId s")
  note b1 = fetchChannelOpenTx_blocksCache_bounded[OF Cons.prems(1) f]
  show ?case
  proof (cases r1)
    case (Thrown e)
    with Cons.prems f b1 show ?thesis by simp
  next
    case (Returned v)
    obtain l s2 where p: "progress_log env loggerTimer s1 = (l, s2)"
      by (cases "progress_log env loggerTimer s1")
    obtain c s3 where c: "checkpoint env cacheTimer s2 = (c, s3)"
      by (cases "checkpoint env cacheTimer s2")
    from Cons.prems f Returned p c
    have rest: "fetch_loop env rest c l s3 = (r, s')" by simp
    have "blocksCache s3 = blocksCache s1"
      using progress_log_frame[OF p] checkpoint_frame[OF c] by simp
    with b1 have "blocksCache_bounded s3" by (simp add: blocksCache_bounded_def)
    from Cons.IH[OF this rest] show ?thesis .
  qed
qed

lemma fetchChannelsFundingTxs_blocksCache:
  assumes "blocksCache_bounded s"
      and "fetchChannelsFundingTxs env channelIds s = (r, s')"
  shows "blocksCache_bounded s'"
proof (cases "running s")
  case True
  with assms show ?thesis by (simp add: fetchChannelsFundingTxs_def)
next
  case False
  let ?s0 = "s\<lparr>running := True, ticks := ticks s + 3, channelNewlyProcessed := 0\<rparr>"
  obtain r6 s6 where loop:
    "fetch_loop env channelIds (seconds (clock env (ticks s + 1))) (seconds (clock env (ticks s + 2))) ?s0 = (r6, s6)"
    by (metis surj_pair)
  have "blocksCache_bounded ?s0" using assms(1) by (simp add: blocksCache_bounded_def)
  note b6 = fetch_loop_blocksCache[OF this loop]
  show ?thesis
  proof (cases r6)
    case (Thrown e)
    with assms(2) loop b6 show ?thesis
      by (simp add: fetchChannelsFundingTxs_started[OF False])
  next
    case (Returned u)
    with assms(2) loop
    have "s' = (monitorLightningWallet env (final_flush s6))\<lparr>running := False\<rparr>"
      by (simp add: fetchChannelsFundingTxs_started[OF False])
    then have "blocksCache s' = blocksCache s6"
      using monitorLightningWallet_frame[of env "final_flush s6"] by (simp add: final_flush_sel)
    with b6 show ?thesis by (simp add: blocksCache_bounded_def)
  qed
qed

subsection \<open>The checkpoints of a batch\<close>



lemma checkpoint_flushes_append [simp]:
  "checkpoint_flushes (s\<lparr>disk_writes := disk_writes s @ [(CheckpointFlush, c)]\<rparr>)
     = Suc (checkpoint_flushes s)"
  by (simp add: checkpoint_flushes_def)






subsection \<open>The concrete collaborators and states, evaluated\<close>

lemma initial_state_sel [simp]:
  "running initial_state = False"
  "blocksCache initial_state = []"
  "channelNewlyProcessed initial_state = 0"
  "fundingTxCache initial_state = Map.empty"
  "walletMempoolTxs initial_state = []"
  "disk_writes initial_state = []"
  "rpc_calls initial_state = []"
  "ticks initial_state = 0"
  by (simp_all add: initial_state_def)

lemma example_block_sel [simp]:
  "height example_block = 700000"
  "time example_block = 1631000000"
  "tx example_block = [''t0'', ''t1'']"
  by (simp_all add: example_block_def)

lemma example_env_sel [simp]:
  "channelIntegerIdToShortId example_env i = Inr i"
  "getBlockHash example_env (Some 700000) = Inr ''hash700000''"
  "getBlockHash example_env (Some 700001) = Inl BackendError"
  "getBlock example_env ''hash700000'' = Inr example_block"
  "getRawTransaction example_env (Some x) verbose = Inr (''raw-'' @ x)"
  "decodeRawTransaction example_env ''raw-t1'' = Inr (Some example_tx)"
  "decodeRawTransaction example_env ''raw-t0'' = Inr None"
  "getAddressTxs example_env a = Inl BackendError"
  "clock example_env k = int k"
  "LOGGER_UPDATE_INTERVAL example_env = 30"
  by (simp_all add: example_env_def)

lemma late_env_sel [simp]:
  "channelIntegerIdToShortId late_env i = Inr i"
  "getAddressTxs late_env a = Inl BackendError"
  "clock late_env k = (if k < 3 then 0 else 61000)"
  "LOGGER_UPDATE_INTERVAL late_env = 30"
  by (simp_all add: late_env_def example_env_def)

lemma steady_env_sel [simp]:
  "channelIntegerIdToShortId steady_env i = Inr i"
  "getAddressTxs steady_env a = Inl BackendError"
  "clock steady_env k = int ((k - 1) div 2)"
  "LOGGER_UPDATE_INTERVAL steady_env = 3600"
  by (simp_all add: steady_env_def example_env_def)

lemma wallet_env_sel [simp]:
  "getAddressTxs wallet_env a = Inr [''c0'']"
  "getRawMempool wallet_env verbose =
     Inr [(''m0'', \<lparr>entry_fee = Some 2, entry_vsize = Some 141\<rparr>),
          (''m1'', \<lparr>entry_fee = Some 1, entry_vsize = Some 110\<rparr>)]"
  "getRawTransaction wallet_env (Some x) verbose = Inr (''raw-'' @ x)"
  "decodeRawTransaction wallet_env ''raw-m0'' = Inr (Some paying_tx)"
  "decodeRawTransaction wallet_env ''raw-m1'' = Inr (Some other_tx)"
  by (simp_all add: wallet_env_def example_env_def)

lemma cached_state_sel [simp]:
  "running cached_state = False"
  "blocksCache cached_state = []"
  "channelNewlyProcessed cached_state = 0"
  "fundingTxCache cached_state ''700000x1x1'' = Some example_record"
  "fundingTxCache cached_state ''700000x0x0'' = Some old_record"
  "walletMempoolTxs cached_state = []"
  "disk_writes cached_state = []"
  "rpc_calls cached_state = []"
  "ticks cached_state = 0"
  by (simp_all add: cached_state_def)

lemma stale_state_sel [simp]:
  "walletMempoolTxs stale_state
     = [\<lparr>wallet_txid = ''old'', amount = Some 1, fee = None, vsize = None\<rparr>]"
  "rpc_calls stale_state = []"
  "fundingTxCache stale_state = Map.empty"
  by (simp_all add: stale_state_def)

lemma full_state_sel [simp]:
  "fundingTxCache full_state = Map.empty"
  "rpc_calls full_state = []"
  "channelNewlyProcessed full_state = 0"
  "map fst (blocksCache full_state) = [1..<101]"
  "length (blocksCache full_state) = 100"
  by (simp_all add: full_state_def comp_def del: upt_rec_numeral)

lemma canonical_examples [simp]:
  "canonical_nat ''700000'' = Some 700000"
  "canonical_nat ''700001'' = Some 700001"
  "canonical_nat ''0'' = Some 0"
  "canonical_nat ''1'' = Some 1"
  "canonical_nat ''2'' = Some 2"
  by (simp_all add: canonical_nat_def is_digit_def digits_val_def digit_val_def)

lemma parseInt_examples [simp]:
  "parseInt (Some ''700000'') = Some 700000"
  "parseInt (Some ''700001'') = Some 700001"
  "parseInt (Some ''0'') = Some 0"
  "parseInt (Some ''1'') = Some 1"
  "parseInt (Some ''2'') = Some 2"
  using canonical_examples by (simp_all add: canonical_nat_parseInt)

lemma split_examples [simp]:
  "split_x ''700000x1x1'' = [''700000'', ''1'', ''1'']"
  "split_x ''700000x1x2'' = [''700000'', ''1'', ''2'']"
  "split_x ''700000x0x0'' = [''700000'', ''0'', ''0'']"
  "split_x ''700001x0x0'' = [''700001'', ''0'', ''0'']"
  by simp_all

lemma not_my_address [simp]:
  "''bc1qother'' \<noteq> MY_LIGHTNING_WALLET_ADDRESS"
  "MY_LIGHTNING_WALLET_ADDRESS \<noteq> ''bc1qother''"
  by (simp_all add: MY_LIGHTNING_WALLET_ADDRESS_def)

lemma blocksCache_get_Nil [simp]: "blocksCache_get [] h = None"
  by (simp add: blocksCache_get_def split: option.split)

lemma example_resolve_block:
  "blocksCache_get (blocksCache s) ''700000'' = None \<Longrightarrow>
   resolve_block example_env ''700000'' s =
     (Returned example_block,
      s\<lparr>rpc_calls := rpc_calls s @ [GetBlockHash (Some 700000), GetBlock ''hash700000'']\<rparr>)"
  by (simp add: resolve_block_def rpc_getBlockHash_def rpc_getBlock_def)

lemma example_cache_block:
  "cache_block example_block [] = [(700000, example_block)]"
  by (simp add: cache_block_def evict_small)

lemma cache_hit:
  "channelIntegerIdToShortId env channelId0 = Inr channelId \<Longrightarrow>
   fundingTxCache s channelId = Some r \<Longrightarrow>
   fetchChannelOpenTx env channelId0 s = (Returned (Some r), s)"
  by (simp add: fetchChannelOpenTx_def)

lemma monitor_fails:
  "getAddressTxs env MY_LIGHTNING_WALLET_ADDRESS = Inl e \<Longrightarrow>
   monitorLightningWallet env s =
     s\<lparr>rpc_calls := rpc_calls s @ [GetAddressTxs MY_LIGHTNING_WALLET_ADDRESS]\<rparr>"
  by (simp add: monitorLightningWallet_def monitor_try_def rpc_getAddressTxs_def)

text \<open>Channel \<^verbatim>\<open>700000x1x1\<close>, resolved from the backend.\<close>

lemma example_fetch_from:
  assumes "blocksCache_get (blocksCache s) ''700000'' = None"
      and "fundingTxCache s ''700000x1x1'' = None"
  shows "fetchChannelOpenTx example_env ''700000x1x1'' s =
     (Returned (Some example_record),
      s\<lparr>blocksCache := cache_block example_block (blocksCache s),
        rpc_calls := rpc_calls s @ [GetBlockHash (Some 700000), GetBlock ''hash700000'',
                      GetRawTransaction (Some ''t1'') False, DecodeRawTransaction ''raw-t1''],
        fundingTxCache := (fundingTxCache s)(''700000x1x1'' \<mapsto> example_record),
        channelNewlyProcessed := channelNewlyProcessed s + 1\<rparr>)"
  using assms
  by (simp add: fetchChannelOpenTx_def Let_def nth_opt_def example_resolve_block
        rpc_getRawTransaction_def rpc_decodeRawTransaction_def
        js_index_def store_funding_tx_def too_few_outputs_def example_record_def example_tx_def)

text \<open>Channel \<^verbatim>\<open>700000x0x0\<close>: its transaction does not decode.\<close>

lemma example_fetch_null:
  "fetchChannelOpenTx example_env ''700000x0x0'' initial_state =
     (Returned None,
      initial_state\<lparr>blocksCache := [(700000, example_block)],
        rpc_calls := [GetBlockHash (Some 700000), GetBlock ''hash700000'',
                      GetRawTransaction (Some ''t0'') False, DecodeRawTransaction ''raw-t0'']\<rparr>)"
  by (simp add: fetchChannelOpenTx_def Let_def nth_opt_def example_resolve_block
        example_cache_block rpc_getRawTransaction_def rpc_decodeRawTransaction_def
        js_index_def store_funding_tx_def)

lemma example_fetch_null_from:
  assumes "blocksCache_get (blocksCache s) ''700000'' = None"
      and "fundingTxCache s ''700000x0x0'' = None"
  shows "fetchChannelOpenTx example_env ''700000x0x0'' s =
     (Returned None,
      s\<lparr>blocksCache := cache_block example_block (blocksCache s),
        rpc_calls := rpc_calls s @ [GetBlockHash (Some 700000), GetBlock ''hash700000'',
                      GetRawTransaction (Some ''t0'') False, DecodeRawTransaction ''raw-t0'']\<rparr>)"
  using assms
  by (simp add: fetchChannelOpenTx_def Let_def nth_opt_def example_resolve_block
        rpc_getRawTransaction_def rpc_decodeRawTransaction_def
        js_index_def store_funding_tx_def)


text \<open>Channel \<^verbatim>\<open>700001x0x0\<close>: the backend fails on its block.\<close>

lemma example_fetch_throws:
  "blocksCache s = [] \<Longrightarrow> fundingTxCache s ''700001x0x0'' = None \<Longrightarrow>
   fetchChannelOpenTx example_env ''700001x0x0'' s =
     (Thrown BackendError, s\<lparr>rpc_calls := rpc_calls s @ [GetBlockHash (Some 700001)]\<rparr>)"
  by (simp add: fetchChannelOpenTx_def Let_def nth_opt_def resolve_block_def
        rpc_getBlockHash_def)

text \<open>A batch of that one channel, from the initial state.\<close>

lemma example_batch:
  "fetchChannelsFundingTxs example_env [''700000x1x1''] initial_state =
     (Returned (),
      initial_state
       \<lparr>blocksCache := [(700000, example_block)],
        channelNewlyProcessed := 1,
        fundingTxCache := [''700000x1x1'' \<mapsto> example_record],
        disk_writes := [(FinalFlush, [''700000x1x1'' \<mapsto> example_record])],
        rpc_calls := [GetBlockHash (Some 700000), GetBlock ''hash700000'',
                      GetRawTransaction (Some ''t1'') False, DecodeRawTransaction ''raw-t1'',
                      GetAddressTxs MY_LIGHTNING_WALLET_ADDRESS],
        ticks := 5\<rparr>)"
  by (simp add: fetchChannelsFundingTxs_started example_fetch_from example_cache_block
        progress_log_eq checkpoint_eq elapsedSeconds_gt elapsedSeconds_le final_flush_def flush_def
        monitor_fails initial_state_def)

text \<open>A batch of the channel on which the backend fails.\<close>

lemma example_batch_throws:
  "fetchChannelsFundingTxs example_env [''700001x0x0''] initial_state =
     (Thrown BackendError,
      initial_state\<lparr>running := True, rpc_calls := [GetBlockHash (Some 700001)], ticks := 3\<rparr>)"
  by (simp add: fetchChannelsFundingTxs_started example_fetch_throws initial_state_def)

text \<open>A batch of one cached channel on the late clock.\<close>

lemma late_batch:
  "fetchChannelsFundingTxs late_env [''700000x1x1''] cached_state =
     (Returned (),
      cached_state
       \<lparr>disk_writes := [(CheckpointFlush, fundingTxCache cached_state)],
        rpc_calls := [GetAddressTxs MY_LIGHTNING_WALLET_ADDRESS],
        ticks := 8\<rparr>)"
  by (simp add: fetchChannelsFundingTxs_started cache_hit progress_log_eq checkpoint_eq
        elapsedSeconds_gt elapsedSeconds_le final_flush_def flush_def monitor_fails
        cached_state_def initial_state_def)



text \<open>A batch of one cached channel on the example clock: nothing is written.\<close>

lemma cached_batch:
  "fetchChannelsFundingTxs example_env [''700000x1x1''] cached_state =
     (Returned (),
      cached_state
       \<lparr>rpc_calls := [GetAddressTxs MY_LIGHTNING_WALLET_ADDRESS],
        ticks := 5\<rparr>)"
  by (simp add: fetchChannelsFundingTxs_started cache_hit progress_log_eq checkpoint_eq
        elapsedSeconds_gt elapsedSeconds_le final_flush_def flush_def monitor_fails
        cached_state_def initial_state_def)



text \<open>The block cache at its capacity, and the block at height 700000 put into it.\<close>

lemma update_fresh: "k \<notin> fst ` set al \<Longrightarrow> AList.update k v al = al @ [(k, v)]"
  by (induction al) auto

lemma map_fst_filter: "map fst (filter (\<lambda>p. P (fst p)) c) = filter P (map fst c)"
  by (induction c) auto

lemma full_state_keys: "fst ` set (blocksCache full_state) = {1..<101}"
proof -
  have "fst ` set (blocksCache full_state) = set (map fst (blocksCache full_state))"
    by (simp only: set_map)
  also have "\<dots> = set [1..<101]"
    by (simp only: full_state_sel)
  also have "\<dots> = {1..<101}"
    by (simp only: set_upt)
  finally show ?thesis .
qed

lemma full_state_miss: "blocksCache_get (blocksCache full_state) ''700000'' = None"
  by (simp add: blocksCache_get_def map_of_eq_None_iff full_state_keys)

lemma full_state_updated:
  "AList.update 700000 example_block (blocksCache full_state)
     = blocksCache full_state @ [(700000, example_block)]"
  by (rule update_fresh) (simp add: full_state_keys)

lemma full_state_hashes:
  "blocksCacheHashes (blocksCache full_state @ [(700000, example_block)]) = [1..<101] @ [700000]"
proof -
  let ?c = "blocksCache full_state @ [(700000, example_block)]"
  have keys: "map fst ?c = [1..<101] @ [700000]" by simp
  have d: "distinct (map fst ?c)"
    unfolding keys by (simp del: upt_rec_numeral)
  have s: "sorted ([1..<101] @ [700000 :: nat])"
    by (simp add: sorted_append del: upt_rec_numeral)
  have "blocksCacheHashes ?c = sort (map fst ?c)"
    using d by (rule blocksCacheHashes_sort)
  also have "\<dots> = [1..<101] @ [700000]"
    unfolding keys using s by (simp add: sorted_sort_id del: upt_rec_numeral)
  finally show ?thesis .
qed

lemma full_state_sorted_keys:
  "sort (map fst (blocksCache full_state @ [(700000, example_block)])) = [1..<101] @ [700000]"
proof -
  let ?c = "blocksCache full_state @ [(700000, example_block)]"
  have "distinct (map fst ?c)" by (simp del: upt_rec_numeral)
  from blocksCacheHashes_sort[OF this] show ?thesis by (simp only: full_state_hashes)
qed

lemma full_state_evicted:
  "map fst (cache_block example_block (blocksCache full_state)) = [11..<101] @ [700000]"
proof -
  let ?c = "blocksCache full_state @ [(700000, example_block)]"
  have t: "take 10 ([1..<101] @ [700000 :: nat]) = [1..<11]"
    by (simp del: upt_rec_numeral)
  have "evict ?c = fold AList.delete [1..<11] ?c"
    by (simp add: evict_def Let_def full_state_hashes t BLOCKS_CACHE_MAX_SIZE_def
          del: upt_rec_numeral)
  then have "map fst (evict ?c) = filter (\<lambda>k. k \<notin> set [1..<11]) (map fst ?c)"
    using map_fst_filter[of "\<lambda>k. k \<notin> set [1..<11]" ?c]
    by (simp only: fold_delete_filter)
  also have "\<dots> = filter (\<lambda>k. k \<notin> set [1..<11]) ([1..<11] @ [11..<101] @ [700000])"
  proof -
    have "[1..<101] = [1..<11] @ [11..<(101::nat)]"
      using upt_add_eq_append[of 1 11 90] by (simp del: upt_rec_numeral)
    then show ?thesis by (simp del: upt_rec_numeral)
  qed
  also have "\<dots> = [11..<101] @ [700000]"
    by (simp add: filter_empty_conv filter_id_conv del: upt_rec_numeral)
  finally show ?thesis
    by (simp add: cache_block_def full_state_updated)
qed

text \<open>A refresh of the wallet monitor on the backend with two mempool transactions.\<close>

lemma wallet_refresh:
  "monitor_try wallet_env stale_state =
     (Returned (),
      stale_state
       \<lparr>rpc_calls := [GetAddressTxs MY_LIGHTNING_WALLET_ADDRESS, GetRawMempool True,
                      GetRawTransaction (Some ''m0'') True, DecodeRawTransaction ''raw-m0'',
                      GetRawTransaction (Some ''m1'') True, DecodeRawTransaction ''raw-m1''],
        walletMempoolTxs := [\<lparr>wallet_txid = ''m0'', amount = Some 12, fee = Some 2, vsize = Some 141\<rparr>],
        fundingTxCache := [MY_LIGHTNING_WALLET_ADDRESS \<mapsto> AddressTxs [''c0'']]\<rparr>)"
  by (simp add: monitor_try_def rpc_getAddressTxs_def rpc_getRawMempool_def scan_entry_def
        rpc_getRawTransaction_def rpc_decodeRawTransaction_def paying_tx_def other_tx_def
        includes_me_def js_add_def Let_def)

lemma wallet_snapshot_example:
  "wallet_snapshot wallet_env
     [(''m0'', \<lparr>entry_fee = Some 2, entry_vsize = Some 141\<rparr>),
      (''m1'', \<lparr>entry_fee = Some 1, entry_vsize = Some 110\<rparr>)]
   = [\<lparr>wallet_txid = ''m0'', amount = Some 12, fee = Some 2, vsize = Some 141\<rparr>]"
  by (simp add: wallet_snapshot_def sends_to_wallet_def decoded_outputs_def matching_sum_def
        pays_me_def includes_me_def js_add_def paying_tx_def other_tx_def)

lemma example_monitor_try_fails:
  "monitor_try example_env s =
     (Thrown BackendError,
      s\<lparr>rpc_calls := rpc_calls s @ [GetAddressTxs MY_LIGHTNING_WALLET_ADDRESS]\<rparr>)"
  by (simp add: monitor_try_def rpc_getAddressTxs_def)

section \<open>The claims\<close>

text \<open>
  Every statement below is about the definitions of the first section. The hypotheses of
  a theorem say which run of the code it speaks of; the theorem that follows it, on the
  concrete collaborators and states defined above, shows such a run.
\<close>

subsection \<open>C1: the single-flight guard after an exception\<close>

text \<open>
  C1 says that \<^verbatim>\<open>running\<close> is false whenever \<^verbatim>\<open>$fetchChannelsFundingTxs\<close> exits, also
  when a resolution throws. The method has no \<^verbatim>\<open>try\<close>: line 122 is reached only when
  the loop completes. The wallet monitor catches what it throws (\<open>monitorLightningWallet\<close>
  returns a state, never an exception), and a batch that completes does release the
  guard (\<open>guard_released\<close>). But when \<^verbatim>\<open>$fetchChannelOpenTx\<close> throws, the call
  exits with \<^verbatim>\<open>running\<close> still set, and every later call is skipped: the code does
  not do what C1 says.
\<close>

theorem guard_stays_set_after_throw:
  assumes idle: "\<not> running s"
      and thrown: "fetchChannelsFundingTxs env channelIds s = (Thrown e, s')"
  shows "running s' \<and> fetchChannelsFundingTxs env channelIds' s' = (Returned (), s')"
proof -
  have "running s'" using idle thrown by (rule guard_stuck)
  then show ?thesis by (simp add: fetchChannelsFundingTxs_def)
qed

text \<open>
  The backend fails on the block of channel \<^verbatim>\<open>700001x0x0\<close>: the batch throws, the guard
  stays set, and the next batch does nothing.
\<close>

theorem guard_stays_set_after_throw_witness:
  "\<not> running initial_state
   \<and> fst (fetchChannelsFundingTxs example_env [''700001x0x0''] initial_state) = Thrown BackendError
   \<and> running (snd (fetchChannelsFundingTxs example_env [''700001x0x0''] initial_state))
   \<and> fetchChannelsFundingTxs example_env [''700000x1x1'']
        (snd (fetchChannelsFundingTxs example_env [''700001x0x0''] initial_state))
       = (Returned (), snd (fetchChannelsFundingTxs example_env [''700001x0x0''] initial_state))"
proof -
  have idle: "\<not> running initial_state" by simp
  have thrown: "fetchChannelsFundingTxs example_env [''700001x0x0''] initial_state
    = (Thrown BackendError, snd (fetchChannelsFundingTxs example_env [''700001x0x0''] initial_state))"
    by (simp add: example_batch_throws)
  from guard_stays_set_after_throw[OF idle thrown, of "[''700000x1x1'']"]
  show ?thesis by (simp add: example_batch_throws)
qed

subsection \<open>C2: the block cache is bounded, and eviction removes the ten lowest heights\<close>

text \<open>
  C2. Let the keys of \<^verbatim>\<open>blocksCache\<close> be distinct, as the keys of an object are. After
  any call of \<^verbatim>\<open>$fetchChannelOpenTx\<close>, whatever its outcome, the keys are still
  distinct, and a cache of at most 100 entries has at most 100 entries. The cache is
  either untouched or the result of storing one block \<open>b\<close> under its height and running
  the eviction step: when that leaves more than 100 entries, exactly the entries of the
  ten smallest heights present (the set \<open>R\<close>, of ten keys, each below every key that
  stays) are removed and no others; otherwise nothing is removed. The cache starts empty
  and no other method writes it (\<open>fetch_loop_blocksCache\<close>, \<open>monitorLightningWallet_frame\<close>),
  so the bound holds after every insertion.
\<close>

theorem blocksCache_bounded_and_evicts_lowest:
  assumes d: "distinct (map fst (blocksCache s))"
      and run: "fetchChannelOpenTx env channelId0 s = (r, s')"
  shows "distinct (map fst (blocksCache s'))
       \<and> (length (blocksCache s) \<le> 100 \<longrightarrow> length (blocksCache s') \<le> 100)
       \<and> (blocksCache s' = blocksCache s
          \<or> (\<exists>b. let c = AList.update (height b) b (blocksCache s);
                     R = set (take 10 (sort (map fst c)))
                 in if 100 < length c
                    then card R = 10 \<and> R \<subseteq> fst ` set c
                         \<and> (\<forall>a\<in>R. \<forall>k\<in>fst ` set c - R. a < k)
                         \<and> blocksCache s' = filter (\<lambda>p. fst p \<notin> R) c
                    else blocksCache s' = c))"
proof -
  from fetchChannelOpenTx_blocksCache[OF run]
  consider "blocksCache s' = blocksCache s"
    | b where "blocksCache s' = cache_block b (blocksCache s)"
    by blast
  then show ?thesis
  proof cases
    case 1
    with d show ?thesis by simp
  next
    case (2 b)
    have A: "distinct (map fst (blocksCache s'))"
      using 2 d by (simp add: distinct_cache_block)
    have B: "length (blocksCache s) \<le> 100 \<longrightarrow> length (blocksCache s') \<le> 100"
      using 2 d by (simp add: length_cache_block)
    have C: "let c = AList.update (height b) b (blocksCache s);
                     R = set (take 10 (sort (map fst c)))
                 in if 100 < length c
                    then card R = 10 \<and> R \<subseteq> fst ` set c
                         \<and> (\<forall>a\<in>R. \<forall>k\<in>fst ` set c - R. a < k)
                         \<and> blocksCache s' = filter (\<lambda>p. fst p \<notin> R) c
                    else blocksCache s' = c"
      using cache_block_cases[OF d, of b] unfolding 2 .
    from A B C show ?thesis by blast
  qed
qed

text \<open>
  The block at height 700000 is put into a cache that holds the heights 1 to 100: the
  heights 1 to 10 go, the others stay. Put into the empty cache, it is the only entry.
\<close>

theorem blocksCache_bounded_and_evicts_lowest_witness:
  "distinct (map fst (blocksCache full_state))
   \<and> length (blocksCache full_state) = 100
   \<and> length (blocksCache (snd (fetchChannelOpenTx example_env ''700000x1x1'' full_state))) \<le> 100
   \<and> map fst (blocksCache (snd (fetchChannelOpenTx example_env ''700000x1x1'' full_state)))
       = [11..<101] @ [700000]
   \<and> blocksCache initial_state = []
   \<and> blocksCache (snd (fetchChannelOpenTx example_env ''700000x1x1'' initial_state))
       = [(700000, example_block)]"
proof -
  have d: "distinct (map fst (blocksCache full_state))"
    by (simp del: upt_rec_numeral)
  have run: "fetchChannelOpenTx example_env ''700000x1x1'' full_state
     = (fst (fetchChannelOpenTx example_env ''700000x1x1'' full_state),
        snd (fetchChannelOpenTx example_env ''700000x1x1'' full_state))"
    by simp
  have "blocksCache (snd (fetchChannelOpenTx example_env ''700000x1x1'' full_state))
          = cache_block example_block (blocksCache full_state)"
    by (simp add: example_fetch_from full_state_miss)
  then have keys: "map fst (blocksCache (snd (fetchChannelOpenTx example_env ''700000x1x1'' full_state)))
          = [11..<101] @ [700000]"
    by (simp only: full_state_evicted)
  have d0: "distinct (map fst (blocksCache (initial_state :: int state)))" by simp
  have run0: "fetchChannelOpenTx example_env ''700000x1x1'' initial_state
     = (fst (fetchChannelOpenTx example_env ''700000x1x1'' initial_state),
        snd (fetchChannelOpenTx example_env ''700000x1x1'' initial_state))"
    by simp
  have small: "blocksCache (snd (fetchChannelOpenTx example_env ''700000x1x1'' initial_state))
       = [(700000, example_block)]"
    by (simp add: example_fetch_from example_cache_block)
  from blocksCache_bounded_and_evicts_lowest[OF d run]
       blocksCache_bounded_and_evicts_lowest[OF d0 run0] d keys small
  show ?thesis by simp
qed

subsection \<open>C3: a channel that is not yet cached is resolved, stored and counted\<close>

text \<open>
  C3, for a channel that is not yet in \<^verbatim>\<open>fundingTxCache\<close>. Let the normalized id be
  \<open>h x t x o'\<close> with \<open>h\<close>, \<open>t\<close> and \<open>o'\<close> the decimal strings of \<open>H\<close>, \<open>T\<close> and \<open>Oi\<close>. Let
  \<open>b\<close> be the block of height \<open>H\<close>: the block that the block cache holds under \<open>H\<close> or,
  when it holds none, the block that the backend returns for the hash it gives for
  \<open>H\<close>. Let \<open>b\<close> have a transaction at index \<open>T\<close>, which the backend returns and decodes to
  outputs with the value \<open>V\<close> at index \<open>Oi\<close>. Then \<^verbatim>\<open>$fetchChannelOpenTx\<close> returns the
  record of \<open>b\<close>'s time, that transaction id and \<open>V\<close>, has stored that record under the
  normalized id, and has incremented the counter of newly processed channels by one.
\<close>

theorem uncached_channel_is_resolved:
  assumes norm: "channelIntegerIdToShortId env channelId0 = Inr channelId"
      and miss: "fundingTxCache s channelId = None"
      and parts: "split_x channelId = [h, t, o']"
      and H: "canonical_nat h = Some H"
      and T: "canonical_nat t = Some T"
      and Oi: "canonical_nat o' = Some Oi"
      and blk: "map_of (blocksCache s) H = Some b
                \<or> (map_of (blocksCache s) H = None
                    \<and> getBlockHash env (Some (int H)) = Inr blockHash
                    \<and> getBlock env blockHash = Inr b)"
      and Tlt: "T < length (tx b)"
      and raw: "getRawTransaction env (Some (tx b ! T)) False = Inr rawTx"
      and dec: "decodeRawTransaction env rawTx = Inr (Some d)"
      and outs: "vout d = Some outs"
      and Olt: "Oi < length outs"
      and V: "out_value (outs ! Oi) = Some V"
  shows "\<exists>s'. fetchChannelOpenTx env channelId0 s =
            (Returned (Some (FundingTx \<lparr>timestamp = time b, txid = Some (tx b ! T), tx_value = V\<rparr>)), s')
          \<and> fundingTxCache s' =
              (fundingTxCache s)(channelId \<mapsto> FundingTx \<lparr>timestamp = time b, txid = Some (tx b ! T), tx_value = V\<rparr>)
          \<and> channelNewlyProcessed s' = channelNewlyProcessed s + 1"
proof -
  have "\<exists>s1. resolve_block env h s = (Returned b, s1)"
    using blk H canonical_nat_parseInt[OF H]
    by (auto simp: resolve_block_def blocksCache_get_def rpc_getBlockHash_def rpc_getBlock_def)
  then obtain s1 where rb: "resolve_block env h s = (Returned b, s1)" by blast
  have fr: "fundingTxCache s1 = fundingTxCache s" "channelNewlyProcessed s1 = channelNewlyProcessed s"
    using resolve_block_frame[OF rb] by simp_all
  have idx: "js_index (tx b) (Some t) = Some (tx b ! T)"
    using T Tlt by (simp add: js_index_def)
  have few: "\<not> too_few_outputs outs (Some o')"
    using canonical_nat_parseInt[OF Oi] Olt by (simp add: too_few_outputs_def)
  have oidx: "js_index outs (Some o') = Some (outs ! Oi)"
    using Oi Olt by (simp add: js_index_def)
  show ?thesis
    using norm miss parts rb raw dec outs V idx few oidx fr
    by (simp add: fetchChannelOpenTx_def Let_def nth_opt_def rpc_getRawTransaction_def
          rpc_decodeRawTransaction_def store_funding_tx_def)
qed

text \<open>Channel \<^verbatim>\<open>700000x1x1\<close> on the example backend, with an empty block cache.\<close>

theorem uncached_channel_is_resolved_witness:
  "fetchChannelOpenTx example_env ''700000x1x1'' initial_state
     = (Returned (Some (FundingTx \<lparr>timestamp = 1631000000, txid = Some ''t1'', tx_value = 7\<rparr>)),
        snd (fetchChannelOpenTx example_env ''700000x1x1'' initial_state))
   \<and> fundingTxCache (snd (fetchChannelOpenTx example_env ''700000x1x1'' initial_state))
       = [''700000x1x1'' \<mapsto> FundingTx \<lparr>timestamp = 1631000000, txid = Some ''t1'', tx_value = 7\<rparr>]
   \<and> channelNewlyProcessed (snd (fetchChannelOpenTx example_env ''700000x1x1'' initial_state)) = 1"
proof -
  have outs: "vout example_tx = Some [\<lparr>out_value = Some 5, scriptPubKey = None\<rparr>,
                                      \<lparr>out_value = Some 7, scriptPubKey = None\<rparr>]"
    by (simp add: example_tx_def)
  have blk: "map_of (blocksCache (initial_state :: int state)) 700000 = Some example_block
                \<or> (map_of (blocksCache (initial_state :: int state)) 700000 = None
                    \<and> getBlockHash example_env (Some (int 700000)) = Inr ''hash700000''
                    \<and> getBlock example_env ''hash700000'' = Inr example_block)"
    by simp
  from uncached_channel_is_resolved[of example_env "''700000x1x1''" "''700000x1x1''" initial_state
         "''700000''" "''1''" "''1''" 700000 1 1 example_block "''hash700000''" "''raw-t1''" example_tx _ 7,
         OF _ _ _ _ _ _ blk _ _ _ outs]
  show ?thesis by auto
qed

text \<open>
  Without the condition that the channel is not yet cached, C3 fails. Here the backend
  returns, for height 700000, a block with the transaction \<^verbatim>\<open>t1\<close> at index 1, which
  decodes to outputs with the value 7 at index 1, and the channel \<^verbatim>\<open>700000x1x1\<close> is in
  the cache: the call returns the record, and the counter is not incremented.
\<close>

theorem cached_channel_is_not_counted:
  "channelIntegerIdToShortId example_env ''700000x1x1'' = Inr ''700000x1x1''
   \<and> split_x ''700000x1x1'' = [''700000'', ''1'', ''1'']
   \<and> canonical_nat ''700000'' = Some 700000
   \<and> canonical_nat ''1'' = Some 1
   \<and> map_of (blocksCache cached_state) 700000 = None
   \<and> getBlockHash example_env (Some 700000) = Inr ''hash700000''
   \<and> getBlock example_env ''hash700000'' = Inr example_block
   \<and> height example_block = 700000
   \<and> tx example_block ! 1 = ''t1''
   \<and> getRawTransaction example_env (Some ''t1'') False = Inr ''raw-t1''
   \<and> decodeRawTransaction example_env ''raw-t1'' = Inr (Some example_tx)
   \<and> vout example_tx = Some [\<lparr>out_value = Some 5, scriptPubKey = None\<rparr>,
                             \<lparr>out_value = Some 7, scriptPubKey = None\<rparr>]
   \<and> fst (fetchChannelOpenTx example_env ''700000x1x1'' cached_state)
       = Returned (Some (FundingTx \<lparr>timestamp = 1631000000, txid = Some ''t1'', tx_value = 7\<rparr>))
   \<and> channelNewlyProcessed (snd (fetchChannelOpenTx example_env ''700000x1x1'' cached_state))
       = channelNewlyProcessed cached_state
   \<and> channelNewlyProcessed (snd (fetchChannelOpenTx example_env ''700000x1x1'' cached_state))
       \<noteq> channelNewlyProcessed cached_state + 1"
  by (simp add: cache_hit example_tx_def example_record_def)

subsection \<open>C4: a cached channel is returned without a call\<close>

text \<open>
  C4. For every channel id whose normalized key is already present in
  \<^verbatim>\<open>fundingTxCache\<close>, \<^verbatim>\<open>$fetchChannelOpenTx\<close> returns the cached record at once: the
  state it leaves is the state it found, so it has made no call on the backend (the list
  of calls is part of the state) and has changed neither cache nor the counter of newly
  processed channels.
\<close>

theorem cache_hit_returns_cached_record:
  assumes "channelIntegerIdToShortId env channelId0 = Inr channelId"
      and "fundingTxCache s channelId = Some r"
  shows "fetchChannelOpenTx env channelId0 s = (Returned (Some r), s)"
  using assms by (simp add: fetchChannelOpenTx_def)

theorem cache_hit_returns_cached_record_witness:
  "fetchChannelOpenTx example_env ''700000x1x1'' cached_state
     = (Returned (Some example_record), cached_state)
   \<and> rpc_calls (snd (fetchChannelOpenTx example_env ''700000x1x1'' cached_state)) = []"
  using cache_hit_returns_cached_record[of example_env "''700000x1x1''" "''700000x1x1''"
          cached_state example_record]
  by simp

subsection \<open>C5: a failed output check returns null and stores nothing\<close>



subsection \<open>C6: the final flush\<close>

text \<open>
  C6, for the final flush. For every batch that starts with the guard clear and
  completes, let \<open>ws\<close> be the writes it has issued on the snapshot file. The writes of
  line 116 among them are exactly one, the last write of the batch, if the counter of
  newly processed channels is greater than zero at the end, and none otherwise. The
  counter, reset at line 88, is greater than zero only if the cache has gained a key,
  and it is greater than zero if the cache has gained a key other than the wallet
  address (under which the monitor stores). A batch whose channels are all in the cache
  ends with the counter at zero, hence without a final flush.
\<close>

theorem final_flush_iff_newly_processed:
  assumes idle: "\<not> running s"
      and ret: "fetchChannelsFundingTxs env channelIds s = (Returned u, s')"
  shows "\<exists>ws. disk_writes s' = disk_writes s @ ws
          \<and> [w \<leftarrow> ws. fst w = FinalFlush] = (if 0 < channelNewlyProcessed s' then [last ws] else [])
          \<and> (0 < channelNewlyProcessed s'
               \<longrightarrow> (\<exists>k. fundingTxCache s k = None \<and> fundingTxCache s' k \<noteq> None))
          \<and> ((\<exists>k. k \<noteq> MY_LIGHTNING_WALLET_ADDRESS
                    \<and> fundingTxCache s k = None \<and> fundingTxCache s' k \<noteq> None)
               \<longrightarrow> 0 < channelNewlyProcessed s')
          \<and> (all_cached env channelIds s \<longrightarrow> channelNewlyProcessed s' = 0)"
proof -
  let ?s0 = "s\<lparr>running := True, ticks := ticks s + 3, channelNewlyProcessed := 0\<rparr>"
  obtain r6 s6 where loop:
    "fetch_loop env channelIds (seconds (clock env (ticks s + 1))) (seconds (clock env (ticks s + 2))) ?s0 = (r6, s6)"
    by (metis surj_pair)
  let ?s8 = "monitorLightningWallet env (final_flush s6)"
  from ret loop have r6: "r6 = Returned ()" and s': "s' = ?s8\<lparr>running := False\<rparr>"
    by (auto simp: fetchChannelsFundingTxs_started[OF idle] split: outcome.splits)
  from fetch_loop_frame[OF loop] obtain cs where
    cs: "disk_writes s6 = disk_writes s @ cs" "\<forall>w\<in>set cs. fst w = CheckpointFlush"
    by auto
  have nofinal: "[w \<leftarrow> cs. fst w = FinalFlush] = []"
    using cs(2) by (auto simp: filter_empty_conv)
  note mf = monitorLightningWallet_frame[of env "final_flush s6"]
  have cnt: "channelNewlyProcessed s' = channelNewlyProcessed s6"
    using s' mf by (simp add: final_flush_sel)
  let ?ws = "cs @ (if 0 < channelNewlyProcessed s6 then [(FinalFlush, fundingTxCache s6)] else [])"
  have w: "disk_writes s' = disk_writes s @ ?ws"
    using s' mf cs(1) by (simp add: final_flush_sel)
  have fl: "[w \<leftarrow> ?ws. fst w = FinalFlush] = (if 0 < channelNewlyProcessed s' then [last ?ws] else [])"
  proof (cases "0 < channelNewlyProcessed s6")
    case True
    then show ?thesis using nofinal cnt by simp
  next
    case False
    then show ?thesis using nofinal cnt by simp
  qed
  have cache': "fundingTxCache s' = fundingTxCache s6
       \<or> (\<exists>c. fundingTxCache s' = (fundingTxCache s6)(MY_LIGHTNING_WALLET_ADDRESS \<mapsto> AddressTxs c))"
    using monitorLightningWallet_cache[of env "final_flush s6"] s'
    by (simp add: final_flush_sel)
  from fetch_loop_counter[OF loop]
  have grow: "0 < channelNewlyProcessed s6
            \<longleftrightarrow> (\<exists>k. fundingTxCache s k = None \<and> fundingTxCache s6 k \<noteq> None)"
    by simp
  have up: "0 < channelNewlyProcessed s'
               \<longrightarrow> (\<exists>k. fundingTxCache s k = None \<and> fundingTxCache s' k \<noteq> None)"
  proof
    assume "0 < channelNewlyProcessed s'"
    with cnt grow obtain k where k: "fundingTxCache s k = None" "fundingTxCache s6 k \<noteq> None"
      by auto
    from cache' k(2) have "fundingTxCache s' k \<noteq> None" by auto
    with k(1) show "\<exists>k. fundingTxCache s k = None \<and> fundingTxCache s' k \<noteq> None" by blast
  qed
  have down: "(\<exists>k. k \<noteq> MY_LIGHTNING_WALLET_ADDRESS
                    \<and> fundingTxCache s k = None \<and> fundingTxCache s' k \<noteq> None)
               \<longrightarrow> 0 < channelNewlyProcessed s'"
  proof
    assume "\<exists>k. k \<noteq> MY_LIGHTNING_WALLET_ADDRESS
                    \<and> fundingTxCache s k = None \<and> fundingTxCache s' k \<noteq> None"
    then obtain k where k: "k \<noteq> MY_LIGHTNING_WALLET_ADDRESS" "fundingTxCache s k = None"
      "fundingTxCache s' k \<noteq> None" by blast
    from cache' k(1,3) have "fundingTxCache s6 k \<noteq> None" by auto
    with k(2) grow cnt show "0 < channelNewlyProcessed s'" by auto
  qed
  have hits: "all_cached env channelIds s \<longrightarrow> channelNewlyProcessed s' = 0"
  proof
    assume "all_cached env channelIds s"
    then have "all_cached env channelIds ?s0"
      using all_cached_cong[of ?s0 s env channelIds] by simp
    from fetch_loop_all_cached[OF this loop] cnt show "channelNewlyProcessed s' = 0" by simp
  qed
  show ?thesis
    by (rule exI[of _ ?ws], intro conjI) (rule w, rule fl, rule up, rule down, rule hits)
qed

text \<open>
  A batch that resolves one channel: one write, the final flush. The same batch once the
  channel is cached, on the same clock: no write.
\<close>

theorem final_flush_iff_newly_processed_witness:
  "\<not> running initial_state
   \<and> fst (fetchChannelsFundingTxs example_env [''700000x1x1''] initial_state) = Returned ()
   \<and> channelNewlyProcessed (snd (fetchChannelsFundingTxs example_env [''700000x1x1''] initial_state)) = 1
   \<and> disk_writes (snd (fetchChannelsFundingTxs example_env [''700000x1x1''] initial_state))
       = [(FinalFlush, [''700000x1x1'' \<mapsto> example_record])]
   \<and> \<not> running cached_state
   \<and> all_cached example_env [''700000x1x1''] cached_state
   \<and> fst (fetchChannelsFundingTxs example_env [''700000x1x1''] cached_state) = Returned ()
   \<and> channelNewlyProcessed (snd (fetchChannelsFundingTxs example_env [''700000x1x1''] cached_state)) = 0
   \<and> disk_writes (snd (fetchChannelsFundingTxs example_env [''700000x1x1''] cached_state)) = []"
proof -
  have idle: "\<not> running (initial_state :: int state)" by simp
  have ret: "fetchChannelsFundingTxs example_env [''700000x1x1''] initial_state
    = (Returned (), snd (fetchChannelsFundingTxs example_env [''700000x1x1''] initial_state))"
    by (simp add: example_batch)
  have idle': "\<not> running cached_state" by simp
  have ret': "fetchChannelsFundingTxs example_env [''700000x1x1''] cached_state
    = (Returned (), snd (fetchChannelsFundingTxs example_env [''700000x1x1''] cached_state))"
    by (simp add: cached_batch)
  have ac: "all_cached example_env [''700000x1x1''] cached_state"
    by (simp add: all_cached_def)
  from final_flush_iff_newly_processed[OF idle ret]
       final_flush_iff_newly_processed[OF idle' ret'] idle idle' ac
  show ?thesis by (simp add: example_batch cached_batch)
qed

text \<open>
  C6 also says that a batch of cache hits only performs no flush at all. That fails:
  the checkpoint of line 108 does not look at the counter. Here the only channel of the
  batch is cached, 61 seconds pass while it is processed, and the cache is written.
\<close>

theorem cached_batch_is_flushed_by_the_timer:
  "\<not> running cached_state
   \<and> all_cached late_env [''700000x1x1''] cached_state
   \<and> fst (fetchChannelsFundingTxs late_env [''700000x1x1''] cached_state) = Returned ()
   \<and> channelNewlyProcessed (snd (fetchChannelsFundingTxs late_env [''700000x1x1''] cached_state)) = 0
   \<and> disk_writes (snd (fetchChannelsFundingTxs late_env [''700000x1x1''] cached_state))
       = [(CheckpointFlush, fundingTxCache cached_state)]"
  by (simp add: late_batch all_cached_def)

subsection \<open>C7: the checkpoint\<close>




subsection \<open>C8: a call while a batch is running\<close>

text \<open>
  C8. Whenever \<^verbatim>\<open>$fetchChannelsFundingTxs\<close> is called while \<^verbatim>\<open>running\<close> is set, it
  returns at once and the state is left exactly as it was: both caches, the wallet
  snapshot, the counter and the writes issued on the snapshot file.
\<close>

theorem running_batch_is_skipped:
  assumes "running s"
  shows "fetchChannelsFundingTxs env channelIds s = (Returned (), s)"
  using assms by (simp add: fetchChannelsFundingTxs_def)

theorem running_batch_is_skipped_witness:
  "running busy_state
   \<and> fetchChannelsFundingTxs example_env [''700000x1x1''] busy_state = (Returned (), busy_state)"
proof -
  have r: "running busy_state" by (simp add: busy_state_def)
  from running_batch_is_skipped[OF r, of example_env "[''700000x1x1'']"] r
  show ?thesis by simp
qed

subsection \<open>C9: the wallet snapshot\<close>

text \<open>
  C9. When the body of the \<^verbatim>\<open>try\<close> of \<^verbatim>\<open>$monitorLightningWallet\<close> completes, the
  snapshot is \<open>wallet_snapshot\<close> of the entries of the mempool: the entries whose
  decoded transaction has an output whose addresses include the wallet address, in
  order, each with the sum of the values of those outputs and with the entry's fee and
  vsize. The previous snapshot does not occur in it. When the body throws, the snapshot
  is the previous one.
\<close>

theorem wallet_snapshot_is_replaced:
  "(\<forall>u s1. monitor_try env s = (Returned u, s1) \<longrightarrow>
      (\<exists>entries. getRawMempool env True = Inr entries
         \<and> walletMempoolTxs (monitorLightningWallet env s) = wallet_snapshot env entries))
   \<and> (\<forall>e s1. monitor_try env s = (Thrown e, s1) \<longrightarrow>
        walletMempoolTxs (monitorLightningWallet env s) = walletMempoolTxs s)"
proof (cases "getAddressTxs env MY_LIGHTNING_WALLET_ADDRESS")
  case (Inl e)
  then show ?thesis
    by (simp add: monitorLightningWallet_def monitor_try_def rpc_getAddressTxs_def)
next
  case a: (Inr confirmedTxs)
  show ?thesis
  proof (cases "getRawMempool env True")
    case (Inl e)
    with a show ?thesis
      by (simp add: monitorLightningWallet_def monitor_try_def rpc_getAddressTxs_def
            rpc_getRawMempool_def)
  next
    case m: (Inr mempoolEntries)
    let ?s2 = "s\<lparr>rpc_calls := rpc_calls s @ [GetAddressTxs MY_LIGHTNING_WALLET_ADDRESS],
                 rpc_calls := rpc_calls s @ [GetAddressTxs MY_LIGHTNING_WALLET_ADDRESS] @ [GetRawMempool True]\<rparr>"
    obtain r3 s3 where sc: "scanMempool env mempoolEntries [] ?s2 = (r3, s3)"
      by (metis surj_pair)
    note fr = scanMempool_frame[OF sc]
    show ?thesis
    proof (cases r3)
      case (Thrown x)
      with a m sc fr show ?thesis
        by (simp add: monitorLightningWallet_def monitor_try_def rpc_getAddressTxs_def
              rpc_getRawMempool_def)
    next
      case (Returned txs)
      from scanMempool_Returned[OF sc[unfolded Returned]]
      have "txs = wallet_snapshot env mempoolEntries" by simp
      with Returned a m sc show ?thesis
        by (simp add: monitorLightningWallet_def monitor_try_def rpc_getAddressTxs_def
              rpc_getRawMempool_def Let_def)
    qed
  qed
qed

text \<open>
  Of two mempool transactions the first pays the wallet 5 and 7: the snapshot is that
  one entry, and the entry of the earlier refresh is gone. On the backend whose wallet
  calls fail, the earlier snapshot stays.
\<close>

theorem wallet_snapshot_is_replaced_witness:
  "fst (monitor_try wallet_env stale_state) = Returned ()
   \<and> walletMempoolTxs stale_state
        = [\<lparr>wallet_txid = ''old'', amount = Some 1, fee = None, vsize = None\<rparr>]
   \<and> walletMempoolTxs (monitorLightningWallet wallet_env stale_state)
        = [\<lparr>wallet_txid = ''m0'', amount = Some 12, fee = Some 2, vsize = Some 141\<rparr>]
   \<and> fst (monitor_try example_env stale_state) = Thrown BackendError
   \<and> walletMempoolTxs (monitorLightningWallet example_env stale_state)
        = walletMempoolTxs stale_state"
  using wallet_snapshot_is_replaced[of wallet_env stale_state]
        wallet_snapshot_is_replaced[of example_env stale_state]
  by (simp add: wallet_refresh example_monitor_try_fails wallet_snapshot_example)

subsection \<open>C10: a failed resolution has cached the block\<close>

text \<open>
  C10. Let the id have the height \<open>H\<close>, let the block cache (with distinct keys, as an
  object has) hold no block under \<open>H\<close>, and let \<^verbatim>\<open>$fetchChannelOpenTx\<close> return null.
  Then the backend has returned a block \<open>b\<close> for the hash it gives for \<open>H\<close>, and the block
  cache is the cache \<open>c\<close> in which \<open>b\<close> has been stored under its height, less the
  entries of the ten lowest heights of \<open>c\<close> when \<open>c\<close> has more than 100 entries. So \<open>b\<close> is
  in the block cache after the call unless its own height is among the ten evicted.
  \<^verbatim>\<open>fundingTxCache\<close> and the counter are as they were.
\<close>

theorem failed_resolution_has_cached_the_block:
  assumes norm: "channelIntegerIdToShortId env channelId0 = Inr channelId"
      and H: "canonical_nat (hd (split_x channelId)) = Some H"
      and bmiss: "map_of (blocksCache s) H = None"
      and d: "distinct (map fst (blocksCache s))"
      and null: "fetchChannelOpenTx env channelId0 s = (Returned None, s')"
  shows "\<exists>blockHash b.
            getBlockHash env (Some (int H)) = Inr blockHash
          \<and> getBlock env blockHash = Inr b
          \<and> (let c = AList.update (height b) b (blocksCache s);
                  R = set (take 10 (sort (map fst c)))
              in map_of c (height b) = Some b
               \<and> blocksCache s' = (if 100 < length c then filter (\<lambda>p. fst p \<notin> R) c else c)
               \<and> (map_of (blocksCache s') (height b) = Some b
                    \<longleftrightarrow> \<not> (100 < length c \<and> height b \<in> R)))
          \<and> fundingTxCache s' = fundingTxCache s
          \<and> channelNewlyProcessed s' = channelNewlyProcessed s"
proof -
  let ?h = "hd (split_x channelId)"
  have pi: "parseInt (Some ?h) = Some (int H)" using canonical_nat_parseInt[OF H] .
  have get: "blocksCache_get (blocksCache s) ?h = None"
    using H bmiss by (simp add: blocksCache_get_def)
  have miss: "fundingTxCache s channelId = None"
    using norm null by (cases "fundingTxCache s channelId") (simp_all add: fetchChannelOpenTx_def)
  show ?thesis
  proof (cases "getBlockHash env (Some (int H))")
    case (Inl e)
    with norm miss get null pi show ?thesis
      by (simp add: fetchChannelOpenTx_def Let_def resolve_block_def rpc_getBlockHash_def)
  next
    case hash: (Inr blockHash)
    show ?thesis
    proof (cases "getBlock env blockHash")
      case (Inl e)
      with hash norm miss get null pi show ?thesis
        by (simp add: fetchChannelOpenTx_def Let_def resolve_block_def rpc_getBlockHash_def
              rpc_getBlock_def)
    next
      case blk: (Inr b)
      let ?s1 = "s\<lparr>rpc_calls := rpc_calls s @ [GetBlockHash (Some (int H))],
                   rpc_calls := rpc_calls s @ [GetBlockHash (Some (int H))] @ [GetBlock blockHash]\<rparr>"
      have rb: "resolve_block env ?h s = (Returned b, ?s1)"
        using get hash blk pi
        by (simp add: resolve_block_def rpc_getBlockHash_def rpc_getBlock_def)
      let ?t = "js_index (tx b) (nth_opt (split_x channelId) 1)"
      let ?s2 = "?s1\<lparr>blocksCache := cache_block b (blocksCache ?s1)\<rparr>"
      let ?s3 = "?s2\<lparr>rpc_calls := rpc_calls ?s2 @ [GetRawTransaction ?t False]\<rparr>"
      have s': "blocksCache s' = cache_block b (blocksCache s)
              \<and> fundingTxCache s' = fundingTxCache s
              \<and> channelNewlyProcessed s' = channelNewlyProcessed s"
      proof (cases "getRawTransaction env ?t False")
        case (Inl e)
        with norm miss rb null show ?thesis
          by (simp add: fetchChannelOpenTx_def Let_def rpc_getRawTransaction_def)
      next
        case raw: (Inr rawTx)
        show ?thesis
        proof (cases "decodeRawTransaction env rawTx")
          case (Inl e)
          with raw norm miss rb null show ?thesis
            by (simp add: fetchChannelOpenTx_def Let_def rpc_getRawTransaction_def
                  rpc_decodeRawTransaction_def)
        next
          case dec: (Inr decoded)
          let ?s4 = "?s3\<lparr>rpc_calls := rpc_calls ?s3 @ [DecodeRawTransaction rawTx]\<rparr>"
          have "store_funding_tx channelId b ?t (nth_opt (split_x channelId) 2) decoded ?s4
                  = (Returned None, s')"
            using dec raw norm miss rb null
            by (simp add: fetchChannelOpenTx_def Let_def rpc_getRawTransaction_def
                  rpc_decodeRawTransaction_def)
          from store_funding_tx_None[OF this] show ?thesis by simp
        qed
      qed
      let ?c = "AList.update (height b) b (blocksCache s)"
      let ?R = "set (take 10 (sort (map fst ?c)))"
      have ins: "map_of ?c (height b) = Some b"
        by (simp add: AList.update_conv')
      have cache: "blocksCache s' = (if 100 < length ?c then filter (\<lambda>p. fst p \<notin> ?R) ?c else ?c)"
        using cache_block_cases[OF d, of b] s' by (simp add: Let_def split: if_splits)
      have present: "map_of (blocksCache s') (height b) = Some b
                    \<longleftrightarrow> \<not> (100 < length ?c \<and> height b \<in> ?R)"
        unfolding cache using ins by (simp add: map_of_filter_key)
      have "let c = ?c; R = set (take 10 (sort (map fst c)))
              in map_of c (height b) = Some b
               \<and> blocksCache s' = (if 100 < length c then filter (\<lambda>p. fst p \<notin> R) c else c)
               \<and> (map_of (blocksCache s') (height b) = Some b
                    \<longleftrightarrow> \<not> (100 < length c \<and> height b \<in> R))"
        unfolding Let_def using ins cache present by (intro conjI)
      with hash blk s' show ?thesis by blast
    qed
  qed
qed

text \<open>
  Channel \<^verbatim>\<open>700000x0x0\<close> does not decode. From the empty block cache: null, and the
  block is the only entry. From the block cache that holds the heights 1 to 100: null,
  the block is stored and the heights 1 to 10 are evicted.
\<close>

theorem failed_resolution_has_cached_the_block_witness:
  "fetchChannelOpenTx example_env ''700000x0x0'' initial_state
     = (Returned None, snd (fetchChannelOpenTx example_env ''700000x0x0'' initial_state))
   \<and> blocksCache initial_state = []
   \<and> blocksCache (snd (fetchChannelOpenTx example_env ''700000x0x0'' initial_state))
        = [(700000, example_block)]
   \<and> fundingTxCache (snd (fetchChannelOpenTx example_env ''700000x0x0'' initial_state)) = Map.empty
   \<and> channelNewlyProcessed (snd (fetchChannelOpenTx example_env ''700000x0x0'' initial_state)) = 0
   \<and> fetchChannelOpenTx example_env ''700000x0x0'' full_state
     = (Returned None, snd (fetchChannelOpenTx example_env ''700000x0x0'' full_state))
   \<and> map fst (blocksCache full_state) = [1..<101]
   \<and> map fst (blocksCache (snd (fetchChannelOpenTx example_env ''700000x0x0'' full_state)))
        = [11..<101] @ [700000]
   \<and> map_of (blocksCache (snd (fetchChannelOpenTx example_env ''700000x0x0'' full_state))) 700000
        = Some example_block"
proof -
  have null: "fetchChannelOpenTx example_env ''700000x0x0'' initial_state
     = (Returned None, snd (fetchChannelOpenTx example_env ''700000x0x0'' initial_state))"
    by (simp add: example_fetch_null)
  have norm: "channelIntegerIdToShortId example_env ''700000x0x0'' = Inr ''700000x0x0''" by simp
  have H: "canonical_nat (hd (split_x ''700000x0x0'')) = Some 700000" by simp
  have d0: "distinct (map fst (blocksCache (initial_state :: int state)))" by simp
  have m0: "map_of (blocksCache (initial_state :: int state)) 700000 = None" by simp
  note A = failed_resolution_has_cached_the_block[of example_env "''700000x0x0''" "''700000x0x0''"
         700000 initial_state, OF norm H m0 d0 null]
  have nullf: "fetchChannelOpenTx example_env ''700000x0x0'' full_state
     = (Returned None, snd (fetchChannelOpenTx example_env ''700000x0x0'' full_state))"
    by (simp add: example_fetch_null_from full_state_miss)
  have df: "distinct (map fst (blocksCache full_state))" by (simp del: upt_rec_numeral)
  have mf: "map_of (blocksCache full_state) 700000 = None"
    by (simp add: map_of_eq_None_iff full_state_keys)
  note B = failed_resolution_has_cached_the_block[of example_env "''700000x0x0''" "''700000x0x0''"
         700000 full_state, OF norm H mf df nullf]
  have keys: "map fst (blocksCache (snd (fetchChannelOpenTx example_env ''700000x0x0'' full_state)))
        = [11..<101] @ [700000]"
    by (simp add: example_fetch_null_from full_state_miss full_state_evicted del: upt_rec_numeral)
  have t: "take 10 ([1..<101] @ [700000 :: nat]) = [1..<11]"
    by (simp del: upt_rec_numeral)
  from B obtain bh b where g1: "getBlockHash example_env (Some (int 700000)) = Inr bh"
    and g2: "getBlock example_env bh = Inr b"
    and L: "let c = AList.update (height b) b (blocksCache full_state);
                R = set (take 10 (sort (map fst c)))
            in map_of c (height b) = Some b
             \<and> blocksCache (snd (fetchChannelOpenTx example_env ''700000x0x0'' full_state))
                 = (if 100 < length c then filter (\<lambda>p. fst p \<notin> R) c else c)
             \<and> (map_of (blocksCache (snd (fetchChannelOpenTx example_env ''700000x0x0'' full_state)))
                      (height b) = Some b
                  \<longleftrightarrow> \<not> (100 < length c \<and> height b \<in> R))"
    by blast
  have bh: "bh = ''hash700000''" using g1 by simp
  have b: "b = example_block" using g2 bh by simp
  have c: "AList.update (height b) b (blocksCache full_state)
             = blocksCache full_state @ [(700000, example_block)]"
    using full_state_updated by (simp add: b)
  have R: "set (take 10 (sort (map fst (blocksCache full_state @ [(700000, example_block)]))))
             = set [1..<11]"
    by (simp only: full_state_sorted_keys t)
  from L have "map_of (blocksCache (snd (fetchChannelOpenTx example_env ''700000x0x0'' full_state)))
                      (height b) = Some b
                  \<longleftrightarrow> \<not> (100 < length (AList.update (height b) b (blocksCache full_state))
                         \<and> height b \<in> set (take 10 (sort (map fst
                               (AList.update (height b) b (blocksCache full_state))))))"
    unfolding Let_def by blast
  then have present:
    "map_of (blocksCache (snd (fetchChannelOpenTx example_env ''700000x0x0'' full_state))) 700000
        = Some example_block"
    unfolding c R by (simp add: b)
  from A null keys present nullf show ?thesis
    by (simp add: example_fetch_null del: upt_rec_numeral)
qed

end
